theory Spec2Isabelle
  imports Main
begin

section \<open>Identifiers, delays and the netlist view\<close>

text \<open>
  The router of \<^verbatim>\<open>common/router1.cc\<close> works on opaque identifiers that the
  architecture declares. They are integer handles here; each has the sentinel its
  default constructor yields (\<^verbatim>\<open>WireId()\<close>, \<^verbatim>\<open>PipId()\<close>, \<^verbatim>\<open>BelId()\<close>,
  \<^verbatim>\<open>IdString()\<close>). No result below depends on the value of a sentinel.
  \<^verbatim>\<open>delay_t\<close> is the integer delay of the iCE40 architecture; C++ integers are
  unbounded integers here, and \<^verbatim>\<open>/\<close> is the truncating division \<open>tdiv\<close>.
\<close>

type_synonym WireId = int
type_synonym PipId = int
type_synonym BelId = int
type_synonym IdString = int
type_synonym PortPin = int
type_synonym delay_t = int

definition WireId_none :: WireId where
  "WireId_none = -1"

definition PipId_none :: PipId where
  "PipId_none = -1"

definition BelId_none :: BelId where
  "BelId_none = -1"

definition IdString_empty :: IdString where
  "IdString_empty = 0"

definition tdiv :: "int \<Rightarrow> int \<Rightarrow> int" where
  "tdiv a b = sgn a * sgn b * (\<bar>a\<bar> div \<bar>b\<bar>)"

datatype PlaceStrength = STRENGTH_WEAK

text \<open>
  What can end a call other than a normal return: \<^verbatim>\<open>log_error\<close> throws
  \<^verbatim>\<open>log_execution_error_exception\<close>, a failed \<^verbatim>\<open>NPNR_ASSERT\<close> throws an assertion
  failure, \<^verbatim>\<open>nets.at\<close> throws on a missing key, and a null cell pointer is
  dereferenced without a check.
\<close>

datatype error = LogExecutionError | AssertionFailure | OutOfRange | NullPointer

record CellInfo =
  bel :: BelId
  pins :: "(IdString \<times> IdString) list"

record PortRef =
  cell :: "CellInfo option"
  port :: IdString

record NetInfo =
  driver :: PortRef
  users :: "PortRef list"
  wires :: "(WireId \<times> PipId) list"

section \<open>The consumed interface\<close>

text \<open>
  \<^verbatim>\<open>Context\<close> and its proxies are declared outside this file, so their operations
  are parameters: a record of functions over an arbitrary context state \<open>'c\<close>. The
  device queries do not read the state; the random number generator, the netlist
  view and the binding operations do. The binding operations are taken to be
  total state transformers that leave the driver and the users of every net as
  they are. Logging has no effect on any state and is left out, as are
  \<^verbatim>\<open>checksum\<close> and \<^verbatim>\<open>check\<close>.
\<close>

record 'c Arch =
  estimateDelay :: "WireId \<Rightarrow> WireId \<Rightarrow> delay_t"
  getPipsDownhill :: "WireId \<Rightarrow> PipId list"
  getPipDstWire :: "PipId \<Rightarrow> WireId"
  getPipSrcWire :: "PipId \<Rightarrow> WireId"
  getPipDelay :: "PipId \<Rightarrow> delay_t"
  getDelayEpsilon :: delay_t
  getRipupDelayPenalty :: delay_t
  getWireBelPin :: "BelId \<Rightarrow> PortPin \<Rightarrow> WireId"
  portPinFromId :: "IdString \<Rightarrow> PortPin"
  debug :: bool
  rng :: "'c \<Rightarrow> int \<times> 'c"
  shuffle :: "'c \<Rightarrow> PortRef list \<Rightarrow> PortRef list \<times> 'c"
  sorted_shuffle :: "'c \<Rightarrow> IdString list \<Rightarrow> IdString list \<times> 'c"
  nets :: "'c \<Rightarrow> (IdString \<times> NetInfo) list"
  checkWireAvail :: "'c \<Rightarrow> WireId \<Rightarrow> bool"
  checkPipAvail :: "'c \<Rightarrow> PipId \<Rightarrow> bool"
  getConflictingWireNet :: "'c \<Rightarrow> WireId \<Rightarrow> IdString"
  getConflictingPipNet :: "'c \<Rightarrow> PipId \<Rightarrow> IdString"
  bindWire :: "'c \<Rightarrow> WireId \<Rightarrow> IdString \<Rightarrow> PlaceStrength \<Rightarrow> 'c"
  unbindWire :: "'c \<Rightarrow> WireId \<Rightarrow> 'c"
  bindPip :: "'c \<Rightarrow> PipId \<Rightarrow> IdString \<Rightarrow> PlaceStrength \<Rightarrow> 'c"
  unbindPip :: "'c \<Rightarrow> PipId \<Rightarrow> 'c"

section \<open>Search records\<close>

record QueuedWire =
  wire :: WireId
  pip :: PipId
  delay :: delay_t
  togo :: delay_t
  randtag :: int

definition QueuedWire_default :: QueuedWire where
  "QueuedWire_default =
     \<lparr>wire = WireId_none, pip = PipId_none, delay = 0, togo = 0, randtag = 0\<rparr>"

definition Greater :: "QueuedWire \<Rightarrow> QueuedWire \<Rightarrow> bool" where
  "Greater lhs rhs =
     (let l = delay lhs + togo lhs; r = delay rhs + togo rhs
      in if l = r then randtag lhs > randtag rhs else l > r)"

text \<open>
  The priority queue is a list in insertion order; \<open>queue_top\<close> is the first entry
  that no other entry precedes under \<open>Greater\<close>, and \<open>queue_pop\<close> removes it.
\<close>

fun queue_top :: "QueuedWire list \<Rightarrow> QueuedWire" where
  "queue_top [] = QueuedWire_default"
| "queue_top [x] = x"
| "queue_top (x # y # ys) = (let m = queue_top (y # ys) in if Greater x m then m else x)"

definition queue_pop :: "QueuedWire list \<Rightarrow> QueuedWire list" where
  "queue_pop q = remove1 (queue_top q) q"

record RipupScoreboard =
  wireScores :: "WireId \<rightharpoonup> int"
  pipScores :: "PipId \<rightharpoonup> int"
  netWireScores :: "(IdString \<times> WireId) \<rightharpoonup> int"
  netPipScores :: "(IdString \<times> PipId) \<rightharpoonup> int"

definition RipupScoreboard_empty :: RipupScoreboard where
  "RipupScoreboard_empty =
     \<lparr>wireScores = Map.empty, pipScores = Map.empty,
      netWireScores = Map.empty, netPipScores = Map.empty\<rparr>"

text \<open>
  The members of \<^verbatim>\<open>struct Router\<close>. The member \<open>scores\<close> is a value: the
  constructor copies the scoreboard it is given by reference, and \<^verbatim>\<open>route\<close> reads
  this copy. The sets of net names are lists without duplicates.
\<close>

record Router =
  scores :: RipupScoreboard
  net_name :: IdString
  ripup :: bool
  ripup_penalty :: delay_t
  rippedNets :: "IdString list"
  visited :: "WireId \<rightharpoonup> QueuedWire"
  visitCnt :: int
  revisitCnt :: int
  overtimeRevisitCnt :: int
  routedOkay :: bool
  maxDelay :: delay_t
  failedDest :: WireId

section \<open>Ripping up a net\<close>

text \<open>
  \<^verbatim>\<open>ripup_net\<close>: unbind every pip of the net, then every wire bound without a pip,
  and assert that the net's wire map is empty afterwards.
\<close>

definition ripup_net :: "'c Arch \<Rightarrow> 'c \<Rightarrow> IdString \<Rightarrow> error + 'c" where
  "ripup_net A c nm =
     (case map_of (nets A c) nm of
        None \<Rightarrow> Inl OutOfRange
      | Some net_info \<Rightarrow>
          (let pips = map snd (filter (\<lambda>it. snd it \<noteq> PipId_none) (wires net_info));
               ws = map fst (filter (\<lambda>it. \<not> snd it \<noteq> PipId_none) (wires net_info));
               c1 = fold (\<lambda>p s. unbindPip A s p) pips c;
               c2 = fold (\<lambda>w s. unbindWire A s w) ws c1
           in case map_of (nets A c2) nm of
                None \<Rightarrow> Inl OutOfRange
              | Some net_info' \<Rightarrow>
                  if wires net_info' = [] then Inr c2 else Inl AssertionFailure))"

section \<open>The path search\<close>

text \<open>
  Lines 152 to 168 of \<^verbatim>\<open>Router::route\<close>: the check of the wire a pip leads to.
  \<open>None\<close> is \<^verbatim>\<open>continue\<close>; otherwise the delay so far and \<^verbatim>\<open>foundRipupNet\<close>.
\<close>

definition wire_conflict :: "'c Arch \<Rightarrow> 'c \<Rightarrow> Router \<Rightarrow> WireId \<Rightarrow> delay_t \<Rightarrow> (delay_t \<times> bool) option" where
  "wire_conflict A c r next_wire next_delay =
     (if \<not> checkWireAvail A c next_wire then
        (if \<not> ripup r then None
         else
           let ripupWireNet = getConflictingWireNet A c next_wire
           in if ripupWireNet = net_name r \<or> ripupWireNet = IdString_empty then None
              else
                let d1 = (case wireScores (scores r) next_wire of
                            None \<Rightarrow> next_delay
                          | Some s \<Rightarrow> next_delay + tdiv (s * ripup_penalty r) 8);
                    d2 = (case netWireScores (scores r) (ripupWireNet, next_wire) of
                            None \<Rightarrow> d1
                          | Some s \<Rightarrow> d1 + s * ripup_penalty r)
                in Some (d2, True))
      else Some (next_delay, False))"

text \<open>Lines 170 to 186: the same check for the pip itself.\<close>

definition pip_conflict :: "'c Arch \<Rightarrow> 'c \<Rightarrow> Router \<Rightarrow> PipId \<Rightarrow> delay_t \<Rightarrow> bool \<Rightarrow> (delay_t \<times> bool) option" where
  "pip_conflict A c r p next_delay foundRipupNet =
     (if \<not> checkPipAvail A c p then
        (if \<not> ripup r then None
         else
           let ripupPipNet = getConflictingPipNet A c p
           in if ripupPipNet = net_name r \<or> ripupPipNet = IdString_empty then None
              else
                let d1 = (case pipScores (scores r) p of
                            None \<Rightarrow> next_delay
                          | Some s \<Rightarrow> next_delay + tdiv (s * ripup_penalty r) 8);
                    d2 = (case netPipScores (scores r) (ripupPipNet, p) of
                            None \<Rightarrow> d1
                          | Some s \<Rightarrow> d1 + s * ripup_penalty r)
                in Some (d2, True))
      else Some (next_delay, foundRipupNet))"

text \<open>
  Lines 147 to 189: the cost \<^verbatim>\<open>next_delay\<close> of the edge through pip \<open>p\<close> out of the
  popped entry \<open>qw\<close>, or \<open>None\<close> when the edge is skipped.
\<close>

definition edge_delay :: "'c Arch \<Rightarrow> 'c \<Rightarrow> Router \<Rightarrow> QueuedWire \<Rightarrow> PipId \<Rightarrow> delay_t option" where
  "edge_delay A c r qw p =
     (let next_delay = delay qw + getPipDelay A p;
          next_wire = getPipDstWire A p
      in case wire_conflict A c r next_wire next_delay of
           None \<Rightarrow> None
         | Some (d1, f1) \<Rightarrow>
             (case pip_conflict A c r p d1 f1 of
                None \<Rightarrow> None
              | Some (d2, f2) \<Rightarrow> Some (if f2 then d2 + ripup_penalty r else d2)))"

text \<open>
  The variables of one call of \<^verbatim>\<open>route\<close>: the context, the router (its visited map
  and counters), the queue, the popped entry \<^verbatim>\<open>qw\<close> and the two visit counters.
\<close>

record 'c Search =
  sctx :: 'c
  srouter :: Router
  squeue :: "QueuedWire list"
  sqw :: QueuedWire
  thisVisitCnt :: int
  thisVisitCntLimit :: int

text \<open>
  Lines 210 to 218. The tag drawn from the generator is stored in \<^verbatim>\<open>qw\<close>, the entry
  that was popped; \<^verbatim>\<open>next_qw\<close> keeps the tag of its default initialiser.
\<close>

definition relax :: "'c Arch \<Rightarrow> WireId \<Rightarrow> PipId \<Rightarrow> WireId \<Rightarrow> delay_t \<Rightarrow> 'c Search \<Rightarrow> 'c Search" where
  "relax A dst_wire p next_wire next_delay st =
     (let next_qw = \<lparr>wire = next_wire, pip = p, delay = next_delay,
                     togo = estimateDelay A next_wire dst_wire, randtag = 0\<rparr>;
          drawn = rng A (sctx st)
      in st\<lparr>sctx := snd drawn,
            sqw := (sqw st)\<lparr>randtag := fst drawn\<rparr>,
            srouter := (srouter st)\<lparr>visited := (visited (srouter st))(wire next_qw \<mapsto> next_qw)\<rparr>,
            squeue := squeue st @ [next_qw]\<rparr>)"

text \<open>Lines 146 to 219: the body of the loop over the downhill pips, for one pip.\<close>

definition examine_pip :: "'c Arch \<Rightarrow> WireId \<Rightarrow> 'c Search \<Rightarrow> PipId \<Rightarrow> error + 'c Search" where
  "examine_pip A dst_wire st p =
     (let r = srouter st;
          next_wire = getPipDstWire A p;
          st1 = st\<lparr>thisVisitCnt := thisVisitCnt st + 1\<rparr>
      in case edge_delay A (sctx st) r (sqw st) p of
           None \<Rightarrow> Inr st1
         | Some next_delay \<Rightarrow>
             if \<not> next_delay \<ge> 0 then Inl AssertionFailure
             else
               (case visited r next_wire of
                  Some old \<Rightarrow>
                    if delay old \<le> next_delay + getDelayEpsilon A then Inr st1
                    else
                      Inr (relax A dst_wire p next_wire next_delay
                             (st1\<lparr>srouter :=
                                    (if thisVisitCntLimit st = 0
                                     then r\<lparr>revisitCnt := revisitCnt r + 1\<rparr>
                                     else r\<lparr>overtimeRevisitCnt := overtimeRevisitCnt r + 1\<rparr>)\<rparr>))
                | None \<Rightarrow> Inr (relax A dst_wire p next_wire next_delay st1)))"

fun examine_pips :: "'c Arch \<Rightarrow> WireId \<Rightarrow> PipId list \<Rightarrow> 'c Search \<Rightarrow> error + 'c Search" where
  "examine_pips A dst_wire [] st = Inr st"
| "examine_pips A dst_wire (p # ps) st =
     (case examine_pip A dst_wire st p of
        Inl e \<Rightarrow> Inl e
      | Inr st' \<Rightarrow> examine_pips A dst_wire ps st')"

text \<open>
  Lines 139 to 220: the \<^verbatim>\<open>while\<close> loop. The loop may run for ever on a device with
  infinitely many wires, so it takes fuel: one unit for each evaluation of the loop
  condition, and \<open>None\<close> when the fuel is used up.
\<close>

definition search_continues :: "'c Search \<Rightarrow> bool" where
  "search_continues st =
     (squeue st \<noteq> [] \<and> (thisVisitCntLimit st = 0 \<or> thisVisitCnt st < thisVisitCntLimit st))"

definition pop_entry :: "WireId \<Rightarrow> 'c Search \<Rightarrow> 'c Search" where
  "pop_entry dst_wire st =
     (let st1 = st\<lparr>sqw := queue_top (squeue st), squeue := queue_pop (squeue st)\<rparr>
      in if thisVisitCntLimit st1 = 0 \<and> visited (srouter st1) dst_wire \<noteq> None
         then st1\<lparr>thisVisitCntLimit := tdiv (thisVisitCnt st1 * 3) 2\<rparr>
         else st1)"

fun route_loop :: "nat \<Rightarrow> 'c Arch \<Rightarrow> WireId \<Rightarrow> 'c Search \<Rightarrow> (error + 'c Search) option" where
  "route_loop 0 A dst_wire st = None"
| "route_loop (Suc n) A dst_wire st =
     (if search_continues st then
        (let st1 = pop_entry dst_wire st
         in case examine_pips A dst_wire (getPipsDownhill A (wire (sqw st1))) st1 of
              Inl e \<Rightarrow> Some (Inl e)
            | Inr st2 \<Rightarrow> route_loop n A dst_wire st2)
      else Some (Inr st))"

text \<open>Lines 124 to 134: one source wire is queued and recorded as visited.\<close>

definition queue_source :: "'c Arch \<Rightarrow> WireId \<Rightarrow> WireId \<times> delay_t \<Rightarrow> 'c Search \<Rightarrow> 'c Search" where
  "queue_source A dst_wire it st =
     (let drawn = rng A (sctx st);
          qw = \<lparr>wire = fst it, pip = PipId_none, delay = snd it,
                togo = estimateDelay A (fst it) dst_wire, randtag = fst drawn\<rparr>
      in st\<lparr>sctx := snd drawn,
            squeue := squeue st @ [qw],
            srouter := (srouter st)\<lparr>visited := (visited (srouter st))(wire qw \<mapsto> qw)\<rparr>\<rparr>)"

definition search_start :: "'c Arch \<Rightarrow> 'c \<Rightarrow> Router \<Rightarrow> (WireId \<times> delay_t) list \<Rightarrow> WireId \<Rightarrow> 'c Search" where
  "search_start A c r src_wires dst_wire =
     fold (queue_source A dst_wire) src_wires
       \<lparr>sctx = c, srouter = r\<lparr>visited := Map.empty\<rparr>, squeue = [],
        sqw = QueuedWire_default, thisVisitCnt = 0, thisVisitCntLimit = 0\<rparr>"

text \<open>\<^verbatim>\<open>Router::route\<close>, lines 118 to 223. The source wires are an association list.\<close>

definition route :: "nat \<Rightarrow> 'c Arch \<Rightarrow> 'c \<Rightarrow> Router \<Rightarrow> (WireId \<times> delay_t) list \<Rightarrow> WireId \<Rightarrow> (error + 'c \<times> Router) option" where
  "route fuel A c r src_wires dst_wire =
     (case route_loop fuel A dst_wire (search_start A c r src_wires dst_wire) of
        None \<Rightarrow> None
      | Some (Inl e) \<Rightarrow> Some (Inl e)
      | Some (Inr st) \<Rightarrow>
          Some (Inr (sctx st, (srouter st)\<lparr>visitCnt := visitCnt (srouter st) + thisVisitCnt st\<rparr>)))"

section \<open>Routing one net\<close>

text \<open>
  The variables of the net constructor while it walks over the users: the context,
  the router under construction, the scoreboard the constructor was given by
  reference (inside the constructor body the name \<^verbatim>\<open>scores\<close> is this parameter, not
  the member), and the local map \<^verbatim>\<open>src_wires\<close>.
\<close>

record 'c Trace =
  tctx :: 'c
  trouter :: Router
  tscores :: RipupScoreboard
  tsrc_wires :: "(WireId \<times> delay_t) list"

text \<open>\<^verbatim>\<open>m[k]++\<close> on a map of counters: a missing key starts at zero.\<close>

definition incr :: "('k \<rightharpoonup> int) \<Rightarrow> 'k \<Rightarrow> ('k \<rightharpoonup> int)" where
  "incr m k = m(k \<mapsto> (case m k of None \<Rightarrow> 0 | Some v \<Rightarrow> v) + 1)"

text \<open>\<^verbatim>\<open>visited[w]\<close>: a missing key is inserted with a default entry.\<close>

definition visited_index :: "Router \<Rightarrow> WireId \<Rightarrow> QueuedWire \<times> Router" where
  "visited_index r w =
     (case visited r w of
        Some q \<Rightarrow> (q, r)
      | None \<Rightarrow> (QueuedWire_default, r\<lparr>visited := (visited r)(w \<mapsto> QueuedWire_default)\<rparr>))"

text \<open>\<^verbatim>\<open>src_wires[w] = d\<close>.\<close>

fun assign :: "WireId \<Rightarrow> delay_t \<Rightarrow> (WireId \<times> delay_t) list \<Rightarrow> (WireId \<times> delay_t) list" where
  "assign w d [] = [(w, d)]"
| "assign w d (it # rest) = (if fst it = w then (w, d) # rest else it # assign w d rest)"

text \<open>Lines 364 to 378: the wire under the cursor is held by another net.\<close>

definition wire_ripup :: "'c Arch \<Rightarrow> WireId \<Rightarrow> 'c Trace \<Rightarrow> error + 'c Trace" where
  "wire_ripup A cursor st =
     (let r = trouter st;
          conflicting_wire_net = getConflictingWireNet A (tctx st) cursor
      in if conflicting_wire_net \<noteq> IdString_empty then
           (if \<not> ripup r then Inl AssertionFailure
            else if \<not> conflicting_wire_net \<noteq> net_name r then Inl AssertionFailure
            else
              let c1 = unbindWire A (tctx st) cursor
              in case (if \<not> checkWireAvail A c1 cursor
                       then ripup_net A c1 conflicting_wire_net else Inr c1) of
                   Inl e \<Rightarrow> Inl e
                 | Inr c2 \<Rightarrow>
                     let s0 = tscores st;
                         s1 = s0\<lparr>wireScores := incr (wireScores s0) cursor\<rparr>;
                         s2 = s1\<lparr>netWireScores := incr (netWireScores s1) (net_name r, cursor)\<rparr>;
                         s3 = s2\<lparr>netWireScores :=
                                   incr (netWireScores s2) (conflicting_wire_net, cursor)\<rparr>
                     in Inr (st\<lparr>tctx := c2,
                                 trouter := r\<lparr>rippedNets :=
                                               List.insert conflicting_wire_net (rippedNets r)\<rparr>,
                                 tscores := s3\<rparr>))
         else Inr st)"

text \<open>Lines 380 to 395: the pip that reaches the cursor is held by another net.\<close>

definition pip_ripup :: "'c Arch \<Rightarrow> PipId \<Rightarrow> 'c Trace \<Rightarrow> error + 'c Trace" where
  "pip_ripup A p st =
     (let r = trouter st;
          conflicting_pip_net = getConflictingPipNet A (tctx st) p
      in if conflicting_pip_net \<noteq> IdString_empty then
           (if \<not> ripup r then Inl AssertionFailure
            else if \<not> conflicting_pip_net \<noteq> net_name r then Inl AssertionFailure
            else
              let c1 = unbindPip A (tctx st) p
              in case (if \<not> checkPipAvail A c1 p
                       then ripup_net A c1 conflicting_pip_net else Inr c1) of
                   Inl e \<Rightarrow> Inl e
                 | Inr c2 \<Rightarrow>
                     let s0 = tscores st;
                         s1 = s0\<lparr>pipScores := incr (pipScores s0) p\<rparr>;
                         s2 = s1\<lparr>netPipScores := incr (netPipScores s1) (net_name r, p)\<rparr>;
                         s3 = s2\<lparr>netPipScores :=
                                   incr (netPipScores s2) (conflicting_pip_net, p)\<rparr>
                     in Inr (st\<lparr>tctx := c2,
                                 trouter := r\<lparr>rippedNets :=
                                               List.insert conflicting_pip_net (rippedNets r)\<rparr>,
                                 tscores := s3\<rparr>))
         else Inr st)"

text \<open>
  Lines 357 to 400: the walk back from a reached sink to a source wire. The loop is
  \<^verbatim>\<open>while (1)\<close> and follows the pips recorded in the visited map, so it takes fuel.
\<close>

fun backtrace :: "nat \<Rightarrow> 'c Arch \<Rightarrow> WireId \<Rightarrow> 'c Trace \<Rightarrow> (error + 'c Trace) option" where
  "backtrace 0 A cursor st = None"
| "backtrace (Suc n) A cursor st =
     (if map_of (tsrc_wires st) cursor \<noteq> None then Some (Inr st)
      else
        case wire_ripup A cursor st of
          Inl e \<Rightarrow> Some (Inl e)
        | Inr st1 \<Rightarrow>
            (let looked = visited_index (trouter st1) cursor;
                 p = pip (fst looked)
             in case pip_ripup A p (st1\<lparr>trouter := snd looked\<rparr>) of
                  Inl e \<Rightarrow> Some (Inl e)
                | Inr st2 \<Rightarrow>
                    backtrace n A (getPipSrcWire A p)
                      (st2\<lparr>tctx := bindPip A (tctx st2) p (net_name (trouter st2)) STRENGTH_WEAK,
                           tsrc_wires := assign cursor (delay (fst looked)) (tsrc_wires st2)\<rparr>)))"

text \<open>The wire of a port: lines 264 to 285 for the driver, 305 to 327 for a user.\<close>

definition port_wire :: "'c Arch \<Rightarrow> PortRef \<Rightarrow> error + WireId" where
  "port_wire A pr =
     (case cell pr of
        None \<Rightarrow> Inl NullPointer
      | Some ci \<Rightarrow>
          if bel ci = BelId_none then Inl LogExecutionError
          else
            let mapped = (case map_of (pins ci) (port pr) of Some q \<Rightarrow> q | None \<Rightarrow> port pr);
                w = getWireBelPin A (bel ci) (portPinFromId A mapped)
            in if w = WireId_none then Inl LogExecutionError else Inr w)"

text \<open>
  Lines 301 to 403: the loop over the shuffled users. A sink that the search does not
  reach rips the net up, records the sink and returns; \<^verbatim>\<open>routedOkay\<close> is set only
  when the loop has run to its end.
\<close>

fun route_users :: "nat \<Rightarrow> 'c Arch \<Rightarrow> PortRef list \<Rightarrow> 'c Trace \<Rightarrow> (error + 'c Trace) option" where
  "route_users fuel A [] st = Some (Inr (st\<lparr>trouter := (trouter st)\<lparr>routedOkay := True\<rparr>\<rparr>))"
| "route_users fuel A (user_it # rest) st =
     (case port_wire A user_it of
        Inl e \<Rightarrow> Some (Inl e)
      | Inr dst_wire \<Rightarrow>
          (case route fuel A (tctx st) (trouter st) (tsrc_wires st) dst_wire of
             None \<Rightarrow> None
           | Some (Inl e) \<Rightarrow> Some (Inl e)
           | Some (Inr (c1, r1)) \<Rightarrow>
               (case visited r1 dst_wire of
                  None \<Rightarrow>
                    (case ripup_net A c1 (net_name r1) of
                       Inl e \<Rightarrow> Some (Inl e)
                     | Inr c2 \<Rightarrow> Some (Inr (st\<lparr>tctx := c2, trouter := r1\<lparr>failedDest := dst_wire\<rparr>\<rparr>)))
                | Some q \<Rightarrow>
                    (case backtrace fuel A dst_wire
                            (st\<lparr>tctx := c1, trouter := r1\<lparr>maxDelay := max (maxDelay r1) (delay q)\<rparr>\<rparr>) of
                       None \<Rightarrow> None
                     | Some (Inl e) \<Rightarrow> Some (Inl e)
                     | Some (Inr st') \<Rightarrow> route_users fuel A rest st'))))"

definition Router_init :: "RipupScoreboard \<Rightarrow> IdString \<Rightarrow> bool \<Rightarrow> delay_t \<Rightarrow> Router" where
  "Router_init sc nm rip pen =
     \<lparr>scores = sc, net_name = nm, ripup = rip, ripup_penalty = pen, rippedNets = [],
      visited = Map.empty, visitCnt = 0, revisitCnt = 0, overtimeRevisitCnt = 0,
      routedOkay = False, maxDelay = 0, failedDest = WireId_none\<rparr>"

text \<open>
  Lines 256 to 299 of the constructor \<^verbatim>\<open>Router(ctx, scores, net_name, ripup,
  ripup_penalty)\<close>: the driver's wire is found, the net is ripped up, the driver's
  wire is bound and the users are shuffled. The result is \<^verbatim>\<open>users_array\<close> and the
  state in which the loop over it starts.
\<close>

definition Router_net_start :: "'c Arch \<Rightarrow> 'c \<Rightarrow> RipupScoreboard \<Rightarrow> IdString \<Rightarrow> bool \<Rightarrow> delay_t \<Rightarrow> error + PortRef list \<times> 'c Trace" where
  "Router_net_start A c sc nm rip pen =
     (case map_of (nets A c) nm of
        None \<Rightarrow> Inl OutOfRange
      | Some net_info \<Rightarrow>
          (case port_wire A (driver net_info) of
             Inl e \<Rightarrow> Inl e
           | Inr src_wire \<Rightarrow>
               (case ripup_net A c nm of
                  Inl e \<Rightarrow> Inl e
                | Inr c1 \<Rightarrow>
                    (let c2 = bindWire A c1 src_wire nm STRENGTH_WEAK;
                         shuffled = shuffle A c2 (users net_info)
                     in Inr (fst shuffled,
                             \<lparr>tctx = snd shuffled, trouter = Router_init sc nm rip pen,
                              tscores = sc, tsrc_wires = [(src_wire, 0)]\<rparr>)))))"

text \<open>
  The whole constructor, lines 253 to 404. The result is the state of the walk when
  the constructor returns: the context, the router, the caller's scoreboard and the
  final \<^verbatim>\<open>src_wires\<close>, which holds the driver's wire (bound with \<^verbatim>\<open>bindWire\<close>) and
  every wire whose pip a back-trace bound with \<^verbatim>\<open>bindPip\<close>.
\<close>

definition Router_net :: "nat \<Rightarrow> 'c Arch \<Rightarrow> 'c \<Rightarrow> RipupScoreboard \<Rightarrow> IdString \<Rightarrow> bool \<Rightarrow> delay_t \<Rightarrow> (error + 'c Trace) option" where
  "Router_net fuel A c sc nm rip pen =
     (case Router_net_start A c sc nm rip pen of
        Inl e \<Rightarrow> Some (Inl e)
      | Inr start \<Rightarrow> route_users fuel A (fst start) (snd start))"

section \<open>The delay probe\<close>

text \<open>Lines 240 to 249: the debug listing of the route, a \<^verbatim>\<open>while (1)\<close> loop.\<close>

fun debug_listing :: "nat \<Rightarrow> 'c Arch \<Rightarrow> WireId \<Rightarrow> WireId \<Rightarrow> Router \<Rightarrow> Router option" where
  "debug_listing 0 A src_wire cursor r = None"
| "debug_listing (Suc n) A src_wire cursor r =
     (let looked = visited_index r cursor
      in if cursor = src_wire then Some (snd looked)
         else debug_listing n A src_wire (getPipSrcWire A (pip (fst looked))) (snd looked))"

text \<open>
  The constructor \<^verbatim>\<open>Router(ctx, scores, src_wire, dst_wire)\<close>, lines 225 to 251, with
  its default arguments: no rip-up, penalty zero, and the default net name.
\<close>

definition Router_wire :: "nat \<Rightarrow> 'c Arch \<Rightarrow> 'c \<Rightarrow> RipupScoreboard \<Rightarrow> WireId \<Rightarrow> WireId \<Rightarrow> (error + 'c \<times> Router) option" where
  "Router_wire fuel A c sc src_wire dst_wire =
     (case route fuel A c (Router_init sc IdString_empty False 0) [(src_wire, 0)] dst_wire of
        None \<Rightarrow> None
      | Some (Inl e) \<Rightarrow> Some (Inl e)
      | Some (Inr (c1, r1)) \<Rightarrow>
          (let r2 = r1\<lparr>routedOkay := (visited r1 dst_wire \<noteq> None)\<rparr>
           in if debug A then
                (case debug_listing fuel A src_wire dst_wire r2 of
                   None \<Rightarrow> None
                 | Some r3 \<Rightarrow> Some (Inr (c1, r3)))
              else Some (Inr (c1, r2))))"

text \<open>
  \<^verbatim>\<open>Context::getActualRouteDelay\<close>, lines 655 to 662. The reference parameter
  \<^verbatim>\<open>delay\<close> comes in as \<open>delay_io\<close> and goes out as the second component.
\<close>

definition getActualRouteDelay :: "nat \<Rightarrow> 'c Arch \<Rightarrow> 'c \<Rightarrow> WireId \<Rightarrow> WireId \<Rightarrow> delay_t \<Rightarrow> (error + bool \<times> delay_t \<times> 'c) option" where
  "getActualRouteDelay fuel A c src_wire dst_wire delay_io =
     (case Router_wire fuel A c RipupScoreboard_empty src_wire dst_wire of
        None \<Rightarrow> None
      | Some (Inl e) \<Rightarrow> Some (Inl e)
      | Some (Inr (c1, router)) \<Rightarrow>
          if routedOkay router then
            (case visited router dst_wire of
               None \<Rightarrow> Some (Inl OutOfRange)
             | Some q \<Rightarrow> Some (Inr (True, delay q, c1)))
          else Some (Inr (False, delay_io, c1)))"

section \<open>The rip-up loop\<close>

text \<open>
  The variables of \<^verbatim>\<open>router1\<close> that outlive one iteration: the context, the
  scoreboard, the queue of nets, the iteration count and the penalty. The visit
  totals only feed log lines and are left out.
\<close>

record 'c Loop =
  lctx :: 'c
  lscores :: RipupScoreboard
  netsQueue :: "IdString list"
  iterCnt :: int
  penalty :: delay_t

text \<open>
  Lines 523 to 544: every queued net is routed without rip-up; a net that fails goes
  to \<^verbatim>\<open>ripupQueue\<close>, the second component.
\<close>

fun pass_plain :: "nat \<Rightarrow> 'c Arch \<Rightarrow> IdString list \<Rightarrow> 'c Loop \<times> IdString list \<Rightarrow> (error + 'c Loop \<times> IdString list) option" where
  "pass_plain fuel A [] acc = Some (Inr acc)"
| "pass_plain fuel A (nm # rest) acc =
     (case Router_net fuel A (lctx (fst acc)) (lscores (fst acc)) nm False 0 of
        None \<Rightarrow> None
      | Some (Inl e) \<Rightarrow> Some (Inl e)
      | Some (Inr t) \<Rightarrow>
          pass_plain fuel A rest
            ((fst acc)\<lparr>lctx := tctx t, lscores := tscores t\<rparr>,
             if \<not> routedOkay (trouter t) then List.insert nm (snd acc) else snd acc))"

text \<open>
  Lines 574 to 606: every net of \<^verbatim>\<open>ripupQueue\<close> is routed with rip-up and the current
  penalty; a failure is \<^verbatim>\<open>log_error\<close>, and the nets it ripped up are queued again.
\<close>

fun pass_ripup :: "nat \<Rightarrow> 'c Arch \<Rightarrow> IdString list \<Rightarrow> 'c Loop \<Rightarrow> (error + 'c Loop) option" where
  "pass_ripup fuel A [] st = Some (Inr st)"
| "pass_ripup fuel A (nm # rest) st =
     (case Router_net fuel A (lctx st) (lscores st) nm True (penalty st) of
        None \<Rightarrow> None
      | Some (Inl e) \<Rightarrow> Some (Inl e)
      | Some (Inr t) \<Rightarrow>
          if \<not> routedOkay (trouter t) then Some (Inl LogExecutionError)
          else
            pass_ripup fuel A rest
              (st\<lparr>lctx := tctx t, lscores := tscores t,
                  netsQueue := fold List.insert (rippedNets (trouter t)) (netsQueue st)\<rparr>))"

text \<open>Lines 506 to 632: the body of the \<^verbatim>\<open>while\<close> loop after the test of the cap.\<close>

definition router1_iteration :: "nat \<Rightarrow> 'c Arch \<Rightarrow> 'c Loop \<Rightarrow> (error + 'c Loop) option" where
  "router1_iteration fuel A st =
     (let netsArray = sorted_shuffle A (lctx st) (netsQueue st);
          st1 = st\<lparr>iterCnt := iterCnt st + 1, lctx := snd netsArray, netsQueue := []\<rparr>
      in case pass_plain fuel A (fst netsArray) (st1, []) of
           None \<Rightarrow> None
         | Some (Inl e) \<Rightarrow> Some (Inl e)
         | Some (Inr (st2, ripupQueue)) \<Rightarrow>
             (case (if ripupQueue \<noteq> [] then
                      (let ripupArray = sorted_shuffle A (lctx st2) ripupQueue
                       in pass_ripup fuel A (fst ripupArray) (st2\<lparr>lctx := snd ripupArray\<rparr>))
                    else Some (Inr st2)) of
                None \<Rightarrow> None
              | Some (Inl e) \<Rightarrow> Some (Inl e)
              | Some (Inr st3) \<Rightarrow>
                  Some (Inr (if iterCnt st3 = 8 \<or> iterCnt st3 = 16 \<or> iterCnt st3 = 32 \<or>
                                iterCnt st3 = 64 \<or> iterCnt st3 = 128
                             then st3\<lparr>penalty := penalty st3 + getRipupDelayPenalty A\<rparr>
                             else st3))))"

text \<open>
  Lines 496 to 633: the \<^verbatim>\<open>while\<close> loop, with the value \<^verbatim>\<open>router1\<close> returns when it
  ends. The first argument is the fuel of this loop, one unit for each test of its
  condition; the second is the fuel handed to every search and back-trace.
\<close>

fun router1_loop :: "nat \<Rightarrow> nat \<Rightarrow> 'c Arch \<Rightarrow> 'c Loop \<Rightarrow> (error + bool \<times> 'c Loop) option" where
  "router1_loop 0 fuel A st = None"
| "router1_loop (Suc k) fuel A st =
     (if netsQueue st \<noteq> [] then
        (if iterCnt st = 200 then Some (Inr (False, st))
         else
           case router1_iteration fuel A st of
             None \<Rightarrow> None
           | Some (Inl e) \<Rightarrow> Some (Inl e)
           | Some (Inr st') \<Rightarrow> router1_loop k fuel A st')
      else Some (Inr (True, st)))"

text \<open>Lines 423 to 434: the nets with a driver and no wires.\<close>

definition unrouted_nets :: "'c Arch \<Rightarrow> 'c \<Rightarrow> IdString list" where
  "unrouted_nets A c =
     fold (\<lambda>net_it q.
             if cell (driver (snd net_it)) = None then q
             else if \<not> wires (snd net_it) = [] then q
             else List.insert (fst net_it) q)
       (nets A c) []"

text \<open>
  Lines 443 to 492: the estimate of the total wire delay over the queued nets. It
  only feeds a log line, but it reads the cells of the users and can fail there.
  The result is the pair of \<^verbatim>\<open>estimatedTotalDelay\<close> and \<^verbatim>\<open>estimatedTotalDelayCnt\<close>.
\<close>

fun estimate_users :: "'c Arch \<Rightarrow> WireId \<Rightarrow> PortRef list \<Rightarrow> delay_t \<times> int \<Rightarrow> error + delay_t \<times> int" where
  "estimate_users A src_wire [] acc = Inr acc"
| "estimate_users A src_wire (user_it # rest) acc =
     (case cell user_it of
        None \<Rightarrow> Inl NullPointer
      | Some ci \<Rightarrow>
          if bel ci = BelId_none then estimate_users A src_wire rest acc
          else
            let user_port = (case map_of (pins ci) (port user_it) of
                               Some q \<Rightarrow> q | None \<Rightarrow> port user_it);
                dst_wire = getWireBelPin A (bel ci) (portPinFromId A user_port)
            in if dst_wire = WireId_none then estimate_users A src_wire rest acc
               else estimate_users A src_wire rest
                      (fst acc + estimateDelay A src_wire dst_wire, snd acc + 1))"

fun estimate_nets :: "'c Arch \<Rightarrow> 'c \<Rightarrow> IdString list \<Rightarrow> delay_t \<times> int \<Rightarrow> error + delay_t \<times> int" where
  "estimate_nets A c [] acc = Inr acc"
| "estimate_nets A c (nm # rest) acc =
     (case map_of (nets A c) nm of
        None \<Rightarrow> Inl OutOfRange
      | Some net_info \<Rightarrow>
          (case cell (driver net_info) of
             None \<Rightarrow> Inl NullPointer
           | Some dc \<Rightarrow>
               if bel dc = BelId_none then estimate_nets A c rest acc
               else
                 let driver_port = (case map_of (pins dc) (port (driver net_info)) of
                                      Some q \<Rightarrow> q | None \<Rightarrow> port (driver net_info));
                     src_wire = getWireBelPin A (bel dc) (portPinFromId A driver_port)
                 in if src_wire = WireId_none then estimate_nets A c rest acc
                    else
                      (case estimate_users A src_wire (users net_info) acc of
                         Inl e \<Rightarrow> Inl e
                       | Inr acc' \<Rightarrow> estimate_nets A c rest acc')))"

text \<open>
  The \<^verbatim>\<open>try\<close> block of \<^verbatim>\<open>router1\<close>, lines 414 to 646, with the loop state at the
  return.
\<close>

definition router1_try :: "nat \<Rightarrow> nat \<Rightarrow> 'c Arch \<Rightarrow> 'c \<Rightarrow> (error + bool \<times> 'c Loop) option" where
  "router1_try k fuel A c =
     (let st0 = \<lparr>lctx = c, lscores = RipupScoreboard_empty, netsQueue = unrouted_nets A c,
                 iterCnt = 0, penalty = getRipupDelayPenalty A\<rparr>
      in if netsQueue st0 = [] then Some (Inr (True, st0))
         else
           case estimate_nets A c (netsQueue st0) (0, 0) of
             Inl e \<Rightarrow> Some (Inl e)
           | Inr estimated \<Rightarrow> router1_loop k fuel A st0)"

text \<open>
  \<^verbatim>\<open>router1\<close>: the handler turns \<^verbatim>\<open>log_execution_error_exception\<close> into the result
  \<^verbatim>\<open>false\<close>; any other failure leaves the function.
\<close>

definition router1 :: "nat \<Rightarrow> nat \<Rightarrow> 'c Arch \<Rightarrow> 'c \<Rightarrow> (error + bool) option" where
  "router1 k fuel A c =
     (case router1_try k fuel A c of
        None \<Rightarrow> None
      | Some (Inl LogExecutionError) \<Rightarrow> Some (Inr False)
      | Some (Inl e) \<Rightarrow> Some (Inl e)
      | Some (Inr res) \<Rightarrow> Some (Inr (fst res)))"

section \<open>A table-driven device\<close>

text \<open>
  Modelled from the spec: the context and the binding operations of the proxy
  (\<^verbatim>\<open>checkWireAvail\<close>, \<^verbatim>\<open>getConflictingWireNet\<close>, \<^verbatim>\<open>bindWire\<close>, \<^verbatim>\<open>unbindWire\<close>, \<^verbatim>\<open>bindPip\<close>,
  \<^verbatim>\<open>unbindPip\<close> and the random number generator), which are declared outside
  \<^verbatim>\<open>router1.cc\<close>. A resource is bound to at most one net; a net's wire map holds each
  wire bound to it with the pip that drives it; binding a pip binds the wire it
  leads to. The theorems below hold for every interface; this one only serves to
  run the router on concrete devices.
\<close>

record Ctx =
  cnets :: "(IdString \<times> NetInfo) list"
  wire_net :: "(WireId \<times> IdString) list"
  pip_net :: "(PipId \<times> IdString) list"
  seed :: int

record Pip =
  pip_id :: PipId
  pip_src :: WireId
  pip_dst :: WireId
  pip_delay :: delay_t

definition find_pip :: "Pip list \<Rightarrow> PipId \<Rightarrow> Pip" where
  "find_pip tab p =
     (case filter (\<lambda>e. pip_id e = p) tab of
        [] \<Rightarrow> \<lparr>pip_id = p, pip_src = WireId_none, pip_dst = WireId_none, pip_delay = 0\<rparr>
      | e # _ \<Rightarrow> e)"

definition owner :: "(int \<times> IdString) list \<Rightarrow> int \<Rightarrow> IdString" where
  "owner tab k = (case map_of tab k of None \<Rightarrow> IdString_empty | Some n \<Rightarrow> n)"

definition drop_wire :: "WireId \<Rightarrow> (IdString \<times> NetInfo) list \<Rightarrow> (IdString \<times> NetInfo) list" where
  "drop_wire w ns =
     map (\<lambda>e. (fst e, (snd e)\<lparr>wires := filter (\<lambda>it. fst it \<noteq> w) (wires (snd e))\<rparr>)) ns"

definition add_wire :: "IdString \<Rightarrow> WireId \<Rightarrow> PipId \<Rightarrow> (IdString \<times> NetInfo) list \<Rightarrow> (IdString \<times> NetInfo) list" where
  "add_wire nm w p ns =
     map (\<lambda>e. if fst e = nm then (fst e, (snd e)\<lparr>wires := wires (snd e) @ [(w, p)]\<rparr>) else e) ns"

definition table_bindWire :: "Ctx \<Rightarrow> WireId \<Rightarrow> IdString \<Rightarrow> PlaceStrength \<Rightarrow> Ctx" where
  "table_bindWire c w nm strength =
     c\<lparr>wire_net := (w, nm) # wire_net c, cnets := add_wire nm w PipId_none (cnets c)\<rparr>"

definition table_unbindWire :: "Ctx \<Rightarrow> WireId \<Rightarrow> Ctx" where
  "table_unbindWire c w =
     c\<lparr>wire_net := filter (\<lambda>it. fst it \<noteq> w) (wire_net c),
       pip_net := filter (\<lambda>it. \<not> (\<exists>e \<in> set (cnets c). (w, fst it) \<in> set (wires (snd e)))) (pip_net c),
       cnets := drop_wire w (cnets c)\<rparr>"

definition table_bindPip :: "Pip list \<Rightarrow> Ctx \<Rightarrow> PipId \<Rightarrow> IdString \<Rightarrow> PlaceStrength \<Rightarrow> Ctx" where
  "table_bindPip tab c p nm strength =
     c\<lparr>pip_net := (p, nm) # pip_net c,
       wire_net := (pip_dst (find_pip tab p), nm) # wire_net c,
       cnets := add_wire nm (pip_dst (find_pip tab p)) p (cnets c)\<rparr>"

definition table_unbindPip :: "Pip list \<Rightarrow> Ctx \<Rightarrow> PipId \<Rightarrow> Ctx" where
  "table_unbindPip tab c p =
     c\<lparr>pip_net := filter (\<lambda>it. fst it \<noteq> p) (pip_net c),
       wire_net := filter (\<lambda>it. fst it \<noteq> pip_dst (find_pip tab p)) (wire_net c),
       cnets := drop_wire (pip_dst (find_pip tab p)) (cnets c)\<rparr>"

text \<open>
  The device of a pip table: bel \<open>b\<close> has its pin on wire \<open>b\<close>, every estimate is
  zero, the generator counts up from the seed, and a shuffle keeps the order
  (\<^verbatim>\<open>sorted_shuffle\<close> sorts first).
\<close>

definition table_arch :: "Pip list \<Rightarrow> delay_t \<Rightarrow> delay_t \<Rightarrow> bool \<Rightarrow> Ctx Arch" where
  "table_arch tab eps base dbg =
     \<lparr>estimateDelay = (\<lambda>a b. 0),
      getPipsDownhill = (\<lambda>w. map pip_id (filter (\<lambda>e. pip_src e = w) tab)),
      getPipDstWire = (\<lambda>p. pip_dst (find_pip tab p)),
      getPipSrcWire = (\<lambda>p. pip_src (find_pip tab p)),
      getPipDelay = (\<lambda>p. pip_delay (find_pip tab p)),
      getDelayEpsilon = eps,
      getRipupDelayPenalty = base,
      getWireBelPin = (\<lambda>b pin. b),
      portPinFromId = (\<lambda>i. i),
      debug = dbg,
      rng = (\<lambda>c. (seed c, c\<lparr>seed := seed c + 1\<rparr>)),
      shuffle = (\<lambda>c xs. (xs, c)),
      sorted_shuffle = (\<lambda>c xs. (sort xs, c)),
      nets = cnets,
      checkWireAvail = (\<lambda>c w. map_of (wire_net c) w = None),
      checkPipAvail = (\<lambda>c p. map_of (pip_net c) p = None),
      getConflictingWireNet = (\<lambda>c w. owner (wire_net c) w),
      getConflictingPipNet = (\<lambda>c p. owner (pip_net c) p),
      bindWire = table_bindWire,
      unbindWire = table_unbindWire,
      bindPip = table_bindPip tab,
      unbindPip = table_unbindPip tab\<rparr>"

definition placed :: "BelId \<Rightarrow> PortRef" where
  "placed b = \<lparr>cell = Some \<lparr>bel = b, pins = []\<rparr>, port = 1\<rparr>"

definition simple_net :: "BelId \<Rightarrow> BelId list \<Rightarrow> NetInfo" where
  "simple_net d us = \<lparr>driver = placed d, users = map placed us, wires = []\<rparr>"

definition fresh_ctx :: "(IdString \<times> NetInfo) list \<Rightarrow> Ctx" where
  "fresh_ctx ns = \<lparr>cnets = ns, wire_net = [], pip_net = [], seed = 0\<rparr>"

text \<open>One pip from wire 1 to wire 2 with delay 5.\<close>

definition direct_tab :: "Pip list" where
  "direct_tab = [\<lparr>pip_id = 10, pip_src = 1, pip_dst = 2, pip_delay = 5\<rparr>]"

text \<open>Two paths of equal delay from wire 1 to wire 4, through wire 2 and through wire 3.\<close>

definition diamond_tab :: "Pip list" where
  "diamond_tab =
     [\<lparr>pip_id = 10, pip_src = 1, pip_dst = 2, pip_delay = 1\<rparr>,
      \<lparr>pip_id = 11, pip_src = 1, pip_dst = 3, pip_delay = 1\<rparr>,
      \<lparr>pip_id = 12, pip_src = 2, pip_dst = 4, pip_delay = 1\<rparr>,
      \<lparr>pip_id = 13, pip_src = 3, pip_dst = 4, pip_delay = 1\<rparr>]"

section \<open>Notions used in the statements\<close>

text \<open>The value of a counter: a key that was never incremented counts zero.\<close>

definition score :: "('k \<rightharpoonup> int) \<Rightarrow> 'k \<Rightarrow> int" where
  "score m k = (case m k of None \<Rightarrow> 0 | Some v \<Rightarrow> v)"

text \<open>
  The members of a router that a path search leaves alone: everything but the
  visited map and the two revisit counters (\<open>visitCnt\<close> changes only after the
  loop).
\<close>

definition same_members :: "Router \<Rightarrow> Router \<Rightarrow> bool" where
  "same_members r r' =
     (scores r' = scores r \<and> net_name r' = net_name r \<and> ripup r' = ripup r
      \<and> ripup_penalty r' = ripup_penalty r \<and> rippedNets r' = rippedNets r
      \<and> visitCnt r' = visitCnt r \<and> routedOkay r' = routedOkay r
      \<and> maxDelay r' = maxDelay r \<and> failedDest r' = failedDest r)"

text \<open>
  The wires a search has recorded beyond the set \<open>S\<close> of its source wires, and the
  balance between the revisits and recorded wires on one side and the examined edges
  on the other.
\<close>

definition settled :: "WireId set \<Rightarrow> 'c Search \<Rightarrow> int" where
  "settled S st = int (card (dom (visited (srouter st)) - S))"

definition accounted :: "WireId set \<Rightarrow> 'c Search \<Rightarrow> int" where
  "accounted S st =
     revisitCnt (srouter st) + overtimeRevisitCnt (srouter st) + settled S st - thisVisitCnt st"

definition search_inv :: "WireId set \<Rightarrow> WireId \<Rightarrow> Router \<Rightarrow> 'c Search \<Rightarrow> bool" where
  "search_inv S dst_wire r0 st =
     (finite (dom (visited (srouter st)))
      \<and> accounted S st \<le> revisitCnt r0 + overtimeRevisitCnt r0
      \<and> revisitCnt r0 \<le> revisitCnt (srouter st)
      \<and> overtimeRevisitCnt r0 \<le> overtimeRevisitCnt (srouter st)
      \<and> (overtimeRevisitCnt r0 < overtimeRevisitCnt (srouter st) \<longrightarrow> visited (srouter st) dst_wire \<noteq> None)
      \<and> (thisVisitCntLimit st \<noteq> 0 \<longrightarrow> visited (srouter st) dst_wire \<noteq> None))"

text \<open>
  The run of the loop of a search from the state \<open>st0\<close> in which it starts: the states
  in which the loop condition held, in order (each is followed by a pop and the
  examination of the pips of the popped wire), and the state reached after them.
  \<open>loop_heads\<close> computes these states for a run with fuel, and \<open>popped_wire\<close> is the
  wire of the entry that the pop made in a state takes.
\<close>

inductive search_trace :: "'c Arch \<Rightarrow> WireId \<Rightarrow> 'c Search \<Rightarrow> 'c Search list \<Rightarrow> 'c Search \<Rightarrow> bool"
  for A :: "'c Arch" and dst_wire :: WireId and st0 :: "'c Search" where
  start: "search_trace A dst_wire st0 [] st0"
| round: "search_trace A dst_wire st0 hist st \<Longrightarrow> search_continues st \<Longrightarrow>
          examine_pips A dst_wire (getPipsDownhill A (wire (sqw (pop_entry dst_wire st))))
            (pop_entry dst_wire st) = Inr st' \<Longrightarrow>
          search_trace A dst_wire st0 (hist @ [st]) st'"




text \<open>
  What the examination of a pip comes to: the edge is skipped (one of the \<^verbatim>\<open>continue\<close>
  statements is taken: a resource is unavailable, or the delay is no improvement on
  the recorded one), it improves a wire that is already recorded (a revisit, counted
  as overtime once the limit is set), or it reaches a wire that is not yet recorded.
  \<open>route_outcomes\<close> lists this for every pip that a search examines, in order.
\<close>

datatype outcome = Skipped | Revisit | Overtime | Fresh

definition examine_outcome :: "'c Arch \<Rightarrow> 'c Search \<Rightarrow> PipId \<Rightarrow> outcome" where
  "examine_outcome A st p =
     (case edge_delay A (sctx st) (srouter st) (sqw st) p of
        None \<Rightarrow> Skipped
      | Some next_delay \<Rightarrow>
          (case visited (srouter st) (getPipDstWire A p) of
             None \<Rightarrow> Fresh
           | Some old \<Rightarrow>
               if delay old \<le> next_delay + getDelayEpsilon A then Skipped
               else if thisVisitCntLimit st = 0 then Revisit else Overtime))"

fun pips_outcomes :: "'c Arch \<Rightarrow> WireId \<Rightarrow> PipId list \<Rightarrow> 'c Search \<Rightarrow> outcome list" where
  "pips_outcomes A dst_wire [] st = []"
| "pips_outcomes A dst_wire (p # ps) st =
     (case examine_pip A dst_wire st p of
        Inl e \<Rightarrow> []
      | Inr st' \<Rightarrow> examine_outcome A st p # pips_outcomes A dst_wire ps st')"

fun loop_outcomes :: "nat \<Rightarrow> 'c Arch \<Rightarrow> WireId \<Rightarrow> 'c Search \<Rightarrow> outcome list" where
  "loop_outcomes 0 A dst_wire st = []"
| "loop_outcomes (Suc n) A dst_wire st =
     (if search_continues st then
        (let st1 = pop_entry dst_wire st;
             ps = getPipsDownhill A (wire (sqw st1))
         in case examine_pips A dst_wire ps st1 of
              Inl e \<Rightarrow> []
            | Inr st2 \<Rightarrow> pips_outcomes A dst_wire ps st1 @ loop_outcomes n A dst_wire st2)
      else [])"

definition route_outcomes :: "nat \<Rightarrow> 'c Arch \<Rightarrow> 'c \<Rightarrow> Router \<Rightarrow> (WireId \<times> delay_t) list \<Rightarrow> WireId \<Rightarrow> outcome list" where
  "route_outcomes fuel A c r src_wires dst_wire =
     loop_outcomes fuel A dst_wire (search_start A c r src_wires dst_wire)"

text \<open>
  The examinations \<open>evs\<close> account for what has changed between two states of a
  search: the count of examined edges, the two revisit counters, and the wires
  recorded beyond the set \<open>S\<close>.
\<close>

definition tally :: "WireId set \<Rightarrow> 'c Search \<Rightarrow> outcome list \<Rightarrow> 'c Search \<Rightarrow> bool" where
  "tally S st evs st' =
     (thisVisitCnt st' = thisVisitCnt st + int (length evs)
      \<and> revisitCnt (srouter st') = revisitCnt (srouter st) + int (count_list evs Revisit)
      \<and> overtimeRevisitCnt (srouter st') = overtimeRevisitCnt (srouter st) + int (count_list evs Overtime)
      \<and> int (card (dom (visited (srouter st')) - S)) =
          int (card (dom (visited (srouter st)) - S)) + int (count_list evs Fresh)
      \<and> finite (dom (visited (srouter st'))) \<and> S \<subseteq> dom (visited (srouter st')))"



text \<open>
  One scoreboard is below another when no counter is smaller in the second; and what
  the steps of the loop over the users keep: the scoreboard only grows, the name, the
  mode and the outcome fields of the router stay, the bound wires only grow, and
  without rip-up the scoreboard and the ripped nets stay as they are.
\<close>

definition scores_le :: "RipupScoreboard \<Rightarrow> RipupScoreboard \<Rightarrow> bool" where
  "scores_le s s' =
     ((\<forall>w. score (wireScores s) w \<le> score (wireScores s') w)
      \<and> (\<forall>p. score (pipScores s) p \<le> score (pipScores s') p)
      \<and> (\<forall>k. score (netWireScores s) k \<le> score (netWireScores s') k)
      \<and> (\<forall>k. score (netPipScores s) k \<le> score (netPipScores s') k))"

definition trace_step :: "'c Trace \<Rightarrow> 'c Trace \<Rightarrow> bool" where
  "trace_step t t' =
     (scores_le (tscores t) (tscores t')
      \<and> net_name (trouter t') = net_name (trouter t)
      \<and> ripup (trouter t') = ripup (trouter t)
      \<and> routedOkay (trouter t') = routedOkay (trouter t)
      \<and> failedDest (trouter t') = failedDest (trouter t)
      \<and> fst ` set (tsrc_wires t) \<subseteq> fst ` set (tsrc_wires t')
      \<and> (\<not> ripup (trouter t) \<longrightarrow>
            tscores t' = tscores t \<and> rippedNets (trouter t') = rippedNets (trouter t)))"

text \<open>
  The conflicts that back-traces meet. \<open>WireConflict n w m\<close>: the back-trace of net \<open>n\<close>
  found the wire \<open>w\<close> under its cursor held by net \<open>m\<close>; \<open>PipConflict n p m\<close>: it found
  the pip \<open>p\<close> that reaches the cursor held by net \<open>m\<close>. The functions \<open>wire_bump\<close> to
  \<open>net_pip_bump\<close> say by how much one conflict raises the counter of a key, and
  \<open>tallied evs s s'\<close> says that the scoreboard \<open>s'\<close> is the scoreboard \<open>s\<close> with every
  counter raised by what the conflicts \<open>evs\<close> add, and by nothing else.
\<close>

datatype conflict = WireConflict IdString WireId IdString | PipConflict IdString PipId IdString

fun wire_bump :: "WireId \<Rightarrow> conflict \<Rightarrow> int" where
  "wire_bump k (WireConflict n w m) = (if k = w then 1 else 0)"
| "wire_bump k (PipConflict n p m) = 0"

fun net_wire_bump :: "IdString \<times> WireId \<Rightarrow> conflict \<Rightarrow> int" where
  "net_wire_bump k (WireConflict n w m) = (if k = (n, w) then 1 else 0) + (if k = (m, w) then 1 else 0)"
| "net_wire_bump k (PipConflict n p m) = 0"

fun pip_bump :: "PipId \<Rightarrow> conflict \<Rightarrow> int" where
  "pip_bump k (WireConflict n w m) = 0"
| "pip_bump k (PipConflict n p m) = (if k = p then 1 else 0)"

fun net_pip_bump :: "IdString \<times> PipId \<Rightarrow> conflict \<Rightarrow> int" where
  "net_pip_bump k (WireConflict n w m) = 0"
| "net_pip_bump k (PipConflict n p m) = (if k = (n, p) then 1 else 0) + (if k = (m, p) then 1 else 0)"

definition tallied :: "conflict list \<Rightarrow> RipupScoreboard \<Rightarrow> RipupScoreboard \<Rightarrow> bool" where
  "tallied evs s s' =
     ((\<forall>w. score (wireScores s') w = score (wireScores s) w + sum_list (map (wire_bump w) evs))
      \<and> (\<forall>k. score (netWireScores s') k = score (netWireScores s) k + sum_list (map (net_wire_bump k) evs))
      \<and> (\<forall>p. score (pipScores s') p = score (pipScores s) p + sum_list (map (pip_bump p) evs))
      \<and> (\<forall>k. score (netPipScores s') k = score (netPipScores s) k + sum_list (map (net_pip_bump k) evs)))"

fun other_net :: "conflict \<Rightarrow> bool" where
  "other_net (WireConflict n w m) = (m \<noteq> IdString_empty \<and> m \<noteq> n)"
| "other_net (PipConflict n p m) = (m \<noteq> IdString_empty \<and> m \<noteq> n)"

text \<open>
  The conflicts met by one step of a back-trace, by a whole back-trace, by the loop
  over the users, by the routing of one net, by a pass with rip-up, by one iteration
  and by the rip-up loop, in the order in which the code meets them. The functions
  follow \<open>backtrace\<close>, \<open>route_users\<close>, \<open>Router_net\<close>, \<open>pass_ripup\<close>,
  \<open>router1_iteration\<close> and \<open>router1_loop\<close> step by step.
\<close>

definition wire_event :: "'c Arch \<Rightarrow> WireId \<Rightarrow> 'c Trace \<Rightarrow> conflict list" where
  "wire_event A cursor st =
     (let conflicting_wire_net = getConflictingWireNet A (tctx st) cursor
      in if conflicting_wire_net \<noteq> IdString_empty
         then [WireConflict (net_name (trouter st)) cursor conflicting_wire_net] else [])"

definition pip_event :: "'c Arch \<Rightarrow> PipId \<Rightarrow> 'c Trace \<Rightarrow> conflict list" where
  "pip_event A p st =
     (let conflicting_pip_net = getConflictingPipNet A (tctx st) p
      in if conflicting_pip_net \<noteq> IdString_empty
         then [PipConflict (net_name (trouter st)) p conflicting_pip_net] else [])"

fun backtrace_events :: "nat \<Rightarrow> 'c Arch \<Rightarrow> WireId \<Rightarrow> 'c Trace \<Rightarrow> conflict list" where
  "backtrace_events 0 A cursor st = []"
| "backtrace_events (Suc n) A cursor st =
     (if map_of (tsrc_wires st) cursor \<noteq> None then []
      else
        case wire_ripup A cursor st of
          Inl e \<Rightarrow> []
        | Inr st1 \<Rightarrow>
            (let looked = visited_index (trouter st1) cursor;
                 p = pip (fst looked)
             in case pip_ripup A p (st1\<lparr>trouter := snd looked\<rparr>) of
                  Inl e \<Rightarrow> wire_event A cursor st
                | Inr st2 \<Rightarrow>
                    wire_event A cursor st @ pip_event A p (st1\<lparr>trouter := snd looked\<rparr>)
                    @ backtrace_events n A (getPipSrcWire A p)
                        (st2\<lparr>tctx := bindPip A (tctx st2) p (net_name (trouter st2)) STRENGTH_WEAK,
                             tsrc_wires := assign cursor (delay (fst looked)) (tsrc_wires st2)\<rparr>)))"

fun route_users_events :: "nat \<Rightarrow> 'c Arch \<Rightarrow> PortRef list \<Rightarrow> 'c Trace \<Rightarrow> conflict list" where
  "route_users_events fuel A [] st = []"
| "route_users_events fuel A (user_it # rest) st =
     (case port_wire A user_it of
        Inl e \<Rightarrow> []
      | Inr dst_wire \<Rightarrow>
          (case route fuel A (tctx st) (trouter st) (tsrc_wires st) dst_wire of
             Some (Inr (c1, r1)) \<Rightarrow>
               (case visited r1 dst_wire of
                  None \<Rightarrow> []
                | Some q \<Rightarrow>
                    (let st1 = st\<lparr>tctx := c1, trouter := r1\<lparr>maxDelay := max (maxDelay r1) (delay q)\<rparr>\<rparr>
                     in case backtrace fuel A dst_wire st1 of
                          Some (Inr st') \<Rightarrow>
                            backtrace_events fuel A dst_wire st1 @ route_users_events fuel A rest st'
                        | _ \<Rightarrow> backtrace_events fuel A dst_wire st1))
           | _ \<Rightarrow> []))"

definition Router_net_events :: "nat \<Rightarrow> 'c Arch \<Rightarrow> 'c \<Rightarrow> RipupScoreboard \<Rightarrow> IdString \<Rightarrow> bool \<Rightarrow> delay_t \<Rightarrow> conflict list" where
  "Router_net_events fuel A c sc nm rip pen =
     (case Router_net_start A c sc nm rip pen of
        Inl e \<Rightarrow> []
      | Inr start \<Rightarrow> route_users_events fuel A (fst start) (snd start))"

fun pass_ripup_events :: "nat \<Rightarrow> 'c Arch \<Rightarrow> IdString list \<Rightarrow> 'c Loop \<Rightarrow> conflict list" where
  "pass_ripup_events fuel A [] st = []"
| "pass_ripup_events fuel A (nm # rest) st =
     Router_net_events fuel A (lctx st) (lscores st) nm True (penalty st) @
     (case Router_net fuel A (lctx st) (lscores st) nm True (penalty st) of
        Some (Inr t) \<Rightarrow>
          if \<not> routedOkay (trouter t) then []
          else
            pass_ripup_events fuel A rest
              (st\<lparr>lctx := tctx t, lscores := tscores t,
                  netsQueue := fold List.insert (rippedNets (trouter t)) (netsQueue st)\<rparr>)
      | _ \<Rightarrow> [])"

definition iteration_events :: "nat \<Rightarrow> 'c Arch \<Rightarrow> 'c Loop \<Rightarrow> conflict list" where
  "iteration_events fuel A st =
     (let netsArray = sorted_shuffle A (lctx st) (netsQueue st);
          st1 = st\<lparr>iterCnt := iterCnt st + 1, lctx := snd netsArray, netsQueue := []\<rparr>
      in case pass_plain fuel A (fst netsArray) (st1, []) of
           Some (Inr (st2, ripupQueue)) \<Rightarrow>
             (if ripupQueue \<noteq> [] then
                (let ripupArray = sorted_shuffle A (lctx st2) ripupQueue
                 in pass_ripup_events fuel A (fst ripupArray) (st2\<lparr>lctx := snd ripupArray\<rparr>))
              else [])
         | _ \<Rightarrow> [])"

fun loop_events :: "nat \<Rightarrow> nat \<Rightarrow> 'c Arch \<Rightarrow> 'c Loop \<Rightarrow> conflict list" where
  "loop_events 0 fuel A st = []"
| "loop_events (Suc k) fuel A st =
     (if netsQueue st \<noteq> [] then
        (if iterCnt st = 200 then []
         else
           iteration_events fuel A st @
           (case router1_iteration fuel A st of
              Some (Inr st') \<Rightarrow> loop_events k fuel A st'
            | _ \<Rightarrow> []))
      else [])"

text \<open>The number of the boundaries 8, 16, 32, 64 and 128 that are at most \<open>i\<close>.\<close>

definition bumps :: "int \<Rightarrow> int" where
  "bumps i = int (length (filter (\<lambda>b. b \<le> i) [8, 16, 32, 64, 128]))"

section \<open>Concrete inputs\<close>



text \<open>
  The search from wire 1 to wire 2 on the one-pip device, generator seeded with 7,
  after the source wire has been popped.
\<close>

definition seeded_search :: "Ctx Search" where
  "seeded_search =
     pop_entry 2 (search_start (table_arch direct_tab 0 10 False) ((fresh_ctx [])\<lparr>seed := 7\<rparr>)
        (Router_init RipupScoreboard_empty 1 False 0) [(1, 0)] 2)"

text \<open>A netlist in which net 1 is routed and net 2 has no driver.\<close>

definition routed_ctx :: Ctx where
  "routed_ctx =
     \<lparr>cnets = [(1, (simple_net 1 [2])\<lparr>wires := [(1, PipId_none), (2, 10)]\<rparr>),
               (2, \<lparr>driver = \<lparr>cell = None, port = 1\<rparr>, users = [], wires = []\<rparr>)],
      wire_net = [(2, 1), (1, 1)], pip_net = [(10, 1)], seed = 0\<rparr>"

text \<open>
  One net from bel 1 to bel 2 on a device with nothing bound, and the state of the
  rip-up loop before its eighth iteration with that net queued.
\<close>

definition direct_ctx :: Ctx where
  "direct_ctx = fresh_ctx [(1, simple_net 1 [2])]"

definition seventh_round :: "Ctx Loop" where
  "seventh_round =
     \<lparr>lctx = direct_ctx, lscores = RipupScoreboard_empty, netsQueue = [1], iterCnt = 7, penalty = 10\<rparr>"


text \<open>
  A device on which two nets need wire 3, the loop state with both nets queued, and
  the state of a back-trace of net 2 that has reached wire 3 while net 1 holds it.
\<close>

definition bottleneck_tab :: "Pip list" where
  "bottleneck_tab =
     [\<lparr>pip_id = 10, pip_src = 1, pip_dst = 3, pip_delay = 1\<rparr>,
      \<lparr>pip_id = 11, pip_src = 3, pip_dst = 4, pip_delay = 1\<rparr>,
      \<lparr>pip_id = 20, pip_src = 2, pip_dst = 3, pip_delay = 1\<rparr>,
      \<lparr>pip_id = 21, pip_src = 3, pip_dst = 5, pip_delay = 1\<rparr>]"

definition bottleneck_round :: "Ctx Loop" where
  "bottleneck_round =
     \<lparr>lctx = fresh_ctx [(1, simple_net 1 [4]), (2, simple_net 2 [5])],
      lscores = RipupScoreboard_empty, netsQueue = [1, 2], iterCnt = 0, penalty = 10\<rparr>"

definition held_trace :: "Ctx Trace" where
  "held_trace =
     \<lparr>tctx = \<lparr>cnets = [(1, (simple_net 1 [4])\<lparr>wires := [(1, PipId_none), (4, 11), (3, 10)]\<rparr>),
                        (2, simple_net 2 [5])],
              wire_net = [(3, 1), (4, 1), (1, 1)], pip_net = [(10, 1), (11, 1)], seed = 0\<rparr>,
      trouter = Router_init RipupScoreboard_empty 2 True 10,
      tscores = RipupScoreboard_empty\<lparr>wireScores := [3 \<mapsto> 4]\<rparr>,
      tsrc_wires = [(2, 0)]\<rparr>"




text \<open>
  A device on which wire 2 is reached from wire 1 directly with delay 5 and through
  wire 3 with delay 2, with wire 4 behind it; and a device with three pips of equal
  delay from wire 1 to wire 2.
\<close>

definition detour_tab :: "Pip list" where
  "detour_tab =
     [\<lparr>pip_id = 10, pip_src = 1, pip_dst = 2, pip_delay = 5\<rparr>,
      \<lparr>pip_id = 11, pip_src = 1, pip_dst = 3, pip_delay = 1\<rparr>,
      \<lparr>pip_id = 12, pip_src = 3, pip_dst = 2, pip_delay = 1\<rparr>,
      \<lparr>pip_id = 13, pip_src = 2, pip_dst = 4, pip_delay = 1\<rparr>]"

definition parallel_tab :: "Pip list" where
  "parallel_tab =
     [\<lparr>pip_id = 10, pip_src = 1, pip_dst = 2, pip_delay = 1\<rparr>,
      \<lparr>pip_id = 11, pip_src = 1, pip_dst = 2, pip_delay = 1\<rparr>,
      \<lparr>pip_id = 12, pip_src = 1, pip_dst = 2, pip_delay = 1\<rparr>]"

text \<open>
  Pip 10 is locked by net 3 while the wire it leads to is free; the loop state with
  net 1 queued on that device; and the state of a back-trace of net 1 that looks at
  pip 10, which already counts 4.
\<close>

definition switch_ctx :: Ctx where
  "switch_ctx =
     \<lparr>cnets = [(1, simple_net 1 [2]), (3, simple_net 5 [6])],
      wire_net = [], pip_net = [(10, 3)], seed = 0\<rparr>"

definition switch_round :: "Ctx Loop" where
  "switch_round =
     \<lparr>lctx = switch_ctx, lscores = RipupScoreboard_empty, netsQueue = [1], iterCnt = 0, penalty = 10\<rparr>"


definition locked_trace :: "Ctx Trace" where
  "locked_trace =
     \<lparr>tctx = switch_ctx, trouter = Router_init RipupScoreboard_empty 1 True 10,
      tscores = RipupScoreboard_empty\<lparr>pipScores := [10 \<mapsto> 4]\<rparr>,
      tsrc_wires = [(1, 0)]\<rparr>"

section \<open>Facts about the path search\<close>



lemma same_members_refl: "same_members r r"
  by (simp add: same_members_def)

lemma same_members_trans: "same_members a b \<Longrightarrow> same_members b c \<Longrightarrow> same_members a c"
  by (simp add: same_members_def)

lemma relax_counts:
  "thisVisitCnt (relax A dst_wire p next_wire next_delay st) = thisVisitCnt st"
  "thisVisitCntLimit (relax A dst_wire p next_wire next_delay st) = thisVisitCntLimit st"
  "srouter (relax A dst_wire p next_wire next_delay st) =
     (srouter st)\<lparr>visited := (visited (srouter st))(next_wire \<mapsto>
        \<lparr>wire = next_wire, pip = p, delay = next_delay,
         togo = estimateDelay A next_wire dst_wire, randtag = 0\<rparr>)\<rparr>"
  by (simp_all add: relax_def Let_def)

text \<open>What one examination does to the counters and the visited map.\<close>

lemma examine_pip_step:
  assumes "examine_pip A dst_wire st p = Inr st'"
  shows "thisVisitCntLimit st' = thisVisitCntLimit st"
    and "thisVisitCnt st' = thisVisitCnt st + 1"
    and "dom (visited (srouter st)) \<subseteq> dom (visited (srouter st'))"
    and "dom (visited (srouter st')) \<subseteq> insert (getPipDstWire A p) (dom (visited (srouter st)))"
    and "revisitCnt (srouter st) \<le> revisitCnt (srouter st')"
    and "overtimeRevisitCnt (srouter st) \<le> overtimeRevisitCnt (srouter st')"
    and "overtimeRevisitCnt (srouter st) < overtimeRevisitCnt (srouter st') \<longrightarrow> thisVisitCntLimit st \<noteq> 0"
    and "(revisitCnt (srouter st') - revisitCnt (srouter st))
         + (overtimeRevisitCnt (srouter st') - overtimeRevisitCnt (srouter st))
         \<le> (if getPipDstWire A p \<in> dom (visited (srouter st)) then 1 else 0)"
    and "getPipDstWire A p \<notin> dom (visited (srouter st)) \<longrightarrow>
           revisitCnt (srouter st') = revisitCnt (srouter st)
           \<and> overtimeRevisitCnt (srouter st') = overtimeRevisitCnt (srouter st)"
  using assms
  by (auto simp: examine_pip_def Let_def relax_counts split: option.splits if_splits)


lemma examine_pips_step:
  assumes "examine_pips A dst_wire ps st = Inr st'"
  shows "thisVisitCntLimit st' = thisVisitCntLimit st
    \<and> thisVisitCnt st \<le> thisVisitCnt st'
    \<and> dom (visited (srouter st)) \<subseteq> dom (visited (srouter st'))
    \<and> revisitCnt (srouter st) \<le> revisitCnt (srouter st')
    \<and> overtimeRevisitCnt (srouter st) \<le> overtimeRevisitCnt (srouter st')
    \<and> (overtimeRevisitCnt (srouter st) < overtimeRevisitCnt (srouter st') \<longrightarrow> thisVisitCntLimit st \<noteq> 0)"
  using assms
proof (induction ps arbitrary: st)
  case Nil
  then show ?case by simp
next
  case (Cons p ps)
  from Cons.prems obtain mid where m: "examine_pip A dst_wire st p = Inr mid"
    and r: "examine_pips A dst_wire ps mid = Inr st'"
    by (auto split: sum.splits)
  note s = examine_pip_step [OF m]
  note i = Cons.IH [OF r]
  show ?case
  proof (intro conjI)
    show "thisVisitCntLimit st' = thisVisitCntLimit st" using s(1) i by simp
    show "thisVisitCnt st \<le> thisVisitCnt st'" using s(2) i by simp
    show "dom (visited (srouter st)) \<subseteq> dom (visited (srouter st'))" using s(3) i by blast
    show "revisitCnt (srouter st) \<le> revisitCnt (srouter st')" using s(5) i by simp
    show "overtimeRevisitCnt (srouter st) \<le> overtimeRevisitCnt (srouter st')" using s(6) i by simp
    show "overtimeRevisitCnt (srouter st) < overtimeRevisitCnt (srouter st') \<longrightarrow> thisVisitCntLimit st \<noteq> 0"
      using s(1,6,7) i by auto
  qed
qed

text \<open>The examined edges pay for the revisits and the newly recorded wires.\<close>

lemma examine_pip_account:
  assumes "examine_pip A dst_wire st p = Inr st'" and "finite (dom (visited (srouter st)))"
  shows "finite (dom (visited (srouter st'))) \<and> accounted S st' \<le> accounted S st"
proof -
  note s = examine_pip_step [OF assms(1)]
  let ?D = "dom (visited (srouter st))" and ?D' = "dom (visited (srouter st'))"
  let ?w = "getPipDstWire A p"
  have fin: "finite ?D'" using s(4) assms(2) by (meson finite_insert finite_subset)
  have "accounted S st' \<le> accounted S st"
  proof (cases "?w \<in> ?D")
    case True
    then have "?D' = ?D" using s(3,4) by auto
    then show ?thesis using s(2,8) True by (simp add: accounted_def settled_def)
  next
    case False
    have "?D' - S \<subseteq> insert ?w (?D - S)" using s(4) by auto
    then have "card (?D' - S) \<le> card (insert ?w (?D - S))"
      using assms(2) by (intro card_mono) auto
    also have "\<dots> \<le> Suc (card (?D - S))" by (rule card_insert_le_m1) auto
    finally have "int (card (?D' - S)) \<le> int (card (?D - S)) + 1" by simp
    then show ?thesis using s(2,9) False by (simp add: accounted_def settled_def)
  qed
  with fin show ?thesis by simp
qed

lemma examine_pips_account:
  assumes "examine_pips A dst_wire ps st = Inr st'" and "finite (dom (visited (srouter st)))"
  shows "finite (dom (visited (srouter st'))) \<and> accounted S st' \<le> accounted S st"
  using assms
proof (induction ps arbitrary: st)
  case Nil
  then show ?case by simp
next
  case (Cons p ps)
  from Cons.prems obtain mid where m: "examine_pip A dst_wire st p = Inr mid"
    and r: "examine_pips A dst_wire ps mid = Inr st'"
    by (auto split: sum.splits)
  have a: "finite (dom (visited (srouter mid)))" and b: "accounted S mid \<le> accounted S st"
    using examine_pip_account [OF m Cons.prems(2), of S] by simp_all
  from Cons.IH [OF r a] b show ?case by simp
qed


lemma pop_entry_fields:
  "srouter (pop_entry dst_wire st) = srouter st"
  "thisVisitCnt (pop_entry dst_wire st) = thisVisitCnt st"
  "thisVisitCntLimit (pop_entry dst_wire st) =
     (if thisVisitCntLimit st = 0 \<and> visited (srouter st) dst_wire \<noteq> None
      then tdiv (thisVisitCnt st * 3) 2 else thisVisitCntLimit st)"
  "sctx (pop_entry dst_wire st) = sctx st"
  by (auto simp: pop_entry_def Let_def)

text \<open>The invariant of the search loop.\<close>

lemma search_inv_step:
  assumes "search_inv S dst_wire r0 st"
    and "examine_pips A dst_wire ps (pop_entry dst_wire st) = Inr st'"
  shows "search_inv S dst_wire r0 st'"
proof -
  let ?p = "pop_entry dst_wire st"
  note f = pop_entry_fields [of dst_wire st]
  note s = examine_pips_step [OF assms(2)]
  have fin: "finite (dom (visited (srouter ?p)))" using assms(1) by (simp add: search_inv_def f)
  note a = examine_pips_account [OF assms(2) fin, of S]
  have acc: "accounted S ?p = accounted S st" by (simp add: accounted_def settled_def f)
  have grow: "visited (srouter st) dst_wire \<noteq> None \<Longrightarrow> visited (srouter st') dst_wire \<noteq> None"
    using s by (auto simp: f)
  have lim: "thisVisitCntLimit ?p \<noteq> 0 \<Longrightarrow> visited (srouter st) dst_wire \<noteq> None"
    using assms(1) by (auto simp: search_inv_def f split: if_splits)
  show ?thesis
    unfolding search_inv_def
  proof (intro conjI impI)
    show "finite (dom (visited (srouter st')))" using a by simp
    show "accounted S st' \<le> revisitCnt r0 + overtimeRevisitCnt r0"
      using a acc assms(1) by (simp add: search_inv_def)
    show "revisitCnt r0 \<le> revisitCnt (srouter st')"
      using s assms(1) by (simp add: search_inv_def f)
    show "overtimeRevisitCnt r0 \<le> overtimeRevisitCnt (srouter st')"
      using s assms(1) by (simp add: search_inv_def f)
    show "visited (srouter st') dst_wire \<noteq> None" if "thisVisitCntLimit st' \<noteq> 0"
      using that s lim grow by simp
    show "visited (srouter st') dst_wire \<noteq> None" if "overtimeRevisitCnt r0 < overtimeRevisitCnt (srouter st')"
    proof (cases "overtimeRevisitCnt (srouter ?p) < overtimeRevisitCnt (srouter st')")
      case True
      then have "thisVisitCntLimit ?p \<noteq> 0" using s by simp
      then show ?thesis using lim grow by simp
    next
      case False
      then have "overtimeRevisitCnt r0 < overtimeRevisitCnt (srouter st)"
        using that s by (simp add: f)
      then show ?thesis using assms(1) grow by (simp add: search_inv_def)
    qed
  qed
qed

lemma route_loop_inv:
  assumes "route_loop n A dst_wire st = Some (Inr fin)" and "search_inv S dst_wire r0 st"
  shows "search_inv S dst_wire r0 fin \<and> \<not> search_continues fin"
  using assms
proof (induction n arbitrary: st)
  case 0
  then show ?case by simp
next
  case (Suc n)
  show ?case
  proof (cases "search_continues st")
    case False
    with Suc.prems show ?thesis by simp
  next
    case True
    with Suc.prems(1) obtain mid
      where m: "examine_pips A dst_wire (getPipsDownhill A (wire (sqw (pop_entry dst_wire st))))
                  (pop_entry dst_wire st) = Inr mid"
        and r: "route_loop n A dst_wire mid = Some (Inr fin)"
      by (auto simp: Let_def split: sum.splits)
    from Suc.IH [OF r search_inv_step [OF Suc.prems(2) m]] show ?thesis .
  qed
qed

lemma queue_sources_fields:
  "thisVisitCnt (fold (queue_source A dst_wire) src_wires st) = thisVisitCnt st
   \<and> thisVisitCntLimit (fold (queue_source A dst_wire) src_wires st) = thisVisitCntLimit st
   \<and> dom (visited (srouter (fold (queue_source A dst_wire) src_wires st)))
       = dom (visited (srouter st)) \<union> fst ` set src_wires
   \<and> revisitCnt (srouter (fold (queue_source A dst_wire) src_wires st)) = revisitCnt (srouter st)
   \<and> overtimeRevisitCnt (srouter (fold (queue_source A dst_wire) src_wires st)) = overtimeRevisitCnt (srouter st)
   \<and> visitCnt (srouter (fold (queue_source A dst_wire) src_wires st)) = visitCnt (srouter st)"
proof (induction src_wires arbitrary: st)
  case Nil
  then show ?case by simp
next
  case (Cons it rest)
  have q: "thisVisitCnt (queue_source A dst_wire it st) = thisVisitCnt st"
    "thisVisitCntLimit (queue_source A dst_wire it st) = thisVisitCntLimit st"
    "dom (visited (srouter (queue_source A dst_wire it st))) = insert (fst it) (dom (visited (srouter st)))"
    "revisitCnt (srouter (queue_source A dst_wire it st)) = revisitCnt (srouter st)"
    "overtimeRevisitCnt (srouter (queue_source A dst_wire it st)) = overtimeRevisitCnt (srouter st)"
    "visitCnt (srouter (queue_source A dst_wire it st)) = visitCnt (srouter st)"
    by (simp_all add: queue_source_def Let_def)
  show ?case using Cons.IH [of "queue_source A dst_wire it st"] by (auto simp: q)
qed

lemma search_start_fields:
  "thisVisitCnt (search_start A c r src_wires dst_wire) = 0"
  "thisVisitCntLimit (search_start A c r src_wires dst_wire) = 0"
  "dom (visited (srouter (search_start A c r src_wires dst_wire))) = fst ` set src_wires"
  "revisitCnt (srouter (search_start A c r src_wires dst_wire)) = revisitCnt r"
  "overtimeRevisitCnt (srouter (search_start A c r src_wires dst_wire)) = overtimeRevisitCnt r"
  "visitCnt (srouter (search_start A c r src_wires dst_wire)) = visitCnt r"
  unfolding search_start_def
  using queue_sources_fields [of A dst_wire src_wires
      "\<lparr>sctx = c, srouter = r\<lparr>visited := Map.empty\<rparr>, squeue = [],
        sqw = QueuedWire_default, thisVisitCnt = 0, thisVisitCntLimit = 0\<rparr>"]
  by simp_all

lemma search_start_inv: "search_inv (fst ` set src_wires) dst_wire r (search_start A c r src_wires dst_wire)"
  by (simp add: search_inv_def accounted_def settled_def search_start_fields)


lemma examine_pip_members:
  assumes "examine_pip A dst_wire st p = Inr st'"
  shows "same_members (srouter st) (srouter st')"
  using assms
  by (auto simp: examine_pip_def Let_def relax_counts same_members_def split: option.splits if_splits)

lemma examine_pips_members:
  assumes "examine_pips A dst_wire ps st = Inr st'"
  shows "same_members (srouter st) (srouter st')"
  using assms
proof (induction ps arbitrary: st)
  case Nil
  then show ?case by (simp add: same_members_refl)
next
  case (Cons p ps)
  from Cons.prems obtain mid where m: "examine_pip A dst_wire st p = Inr mid"
    and r: "examine_pips A dst_wire ps mid = Inr st'"
    by (auto split: sum.splits)
  show ?case by (rule same_members_trans [OF examine_pip_members [OF m] Cons.IH [OF r]])
qed

lemma route_loop_members:
  assumes "route_loop n A dst_wire st = Some (Inr fin)"
  shows "same_members (srouter st) (srouter fin)"
  using assms
proof (induction n arbitrary: st)
  case 0
  then show ?case by simp
next
  case (Suc n)
  show ?case
  proof (cases "search_continues st")
    case False
    with Suc.prems show ?thesis by (simp add: same_members_refl)
  next
    case True
    with Suc.prems(1) obtain mid
      where m: "examine_pips A dst_wire (getPipsDownhill A (wire (sqw (pop_entry dst_wire st))))
                  (pop_entry dst_wire st) = Inr mid"
        and r: "route_loop n A dst_wire mid = Some (Inr fin)"
      by (auto simp: Let_def split: sum.splits)
    from examine_pips_members [OF m] have "same_members (srouter st) (srouter mid)"
      by (simp add: pop_entry_fields)
    then show ?thesis by (rule same_members_trans [OF _ Suc.IH [OF r]])
  qed
qed

lemma queue_sources_members:
  "same_members (srouter st) (srouter (fold (queue_source A dst_wire) src_wires st))"
proof (induction src_wires arbitrary: st)
  case Nil
  then show ?case by (simp add: same_members_refl)
next
  case (Cons it rest)
  have "same_members (srouter st) (srouter (queue_source A dst_wire it st))"
    by (simp add: queue_source_def Let_def same_members_def)
  from same_members_trans [OF this Cons.IH [of "queue_source A dst_wire it st"]]
  show ?case by simp
qed

lemma search_start_members: "same_members r (srouter (search_start A c r src_wires dst_wire))"
proof -
  let ?st = "\<lparr>sctx = c, srouter = r\<lparr>visited := Map.empty\<rparr>, squeue = [],
        sqw = QueuedWire_default, thisVisitCnt = 0, thisVisitCntLimit = 0\<rparr>"
  have "same_members r (srouter ?st)" by (simp add: same_members_def)
  from same_members_trans [OF this queue_sources_members [of ?st A dst_wire src_wires]]
  show ?thesis unfolding search_start_def .
qed

text \<open>What a completed search returns.\<close>

lemma route_result:
  assumes "route fuel A c r src_wires dst_wire = Some (Inr (c', r'))"
  obtains fin where "route_loop fuel A dst_wire (search_start A c r src_wires dst_wire) = Some (Inr fin)"
    and "c' = sctx fin" and "r' = (srouter fin)\<lparr>visitCnt := visitCnt r + thisVisitCnt fin\<rparr>"
proof -
  from assms obtain fin
    where l: "route_loop fuel A dst_wire (search_start A c r src_wires dst_wire) = Some (Inr fin)"
      and c: "c' = sctx fin"
      and r: "r' = (srouter fin)\<lparr>visitCnt := visitCnt (srouter fin) + thisVisitCnt fin\<rparr>"
    by (auto simp: route_def split: option.splits sum.splits)
  have "same_members r (srouter fin)"
    by (rule same_members_trans [OF search_start_members route_loop_members [OF l]])
  then have "visitCnt (srouter fin) = visitCnt r" by (simp add: same_members_def)
  with l c r that show thesis by simp
qed

text \<open>Unfolding the model on concrete inputs.\<close>

lemmas search_defs = route_def search_start_def queue_source_def search_continues_def pop_entry_def
  examine_pip_def edge_delay_def wire_conflict_def pip_conflict_def relax_def queue_pop_def Greater_def
  QueuedWire_default_def Router_init_def RipupScoreboard_empty_def tdiv_def Let_def

lemmas table_defs = table_arch_def find_pip_def owner_def fresh_ctx_def

lemma diamond_run:
  "route (Suc (Suc (Suc (Suc (Suc 0))))) (table_arch diamond_tab 0 10 False) (fresh_ctx [])
     (Router_init RipupScoreboard_empty 1 False 0) [(1, 0)] 4 =
   Some (Inr (\<lparr>cnets = [], wire_net = [], pip_net = [], seed = 4\<rparr>,
     (Router_init RipupScoreboard_empty 1 False 0)
       \<lparr>visited := [1 \<mapsto> \<lparr>wire = 1, pip = PipId_none, delay = 0, togo = 0, randtag = 0\<rparr>,
                    2 \<mapsto> \<lparr>wire = 2, pip = 10, delay = 1, togo = 0, randtag = 0\<rparr>,
                    3 \<mapsto> \<lparr>wire = 3, pip = 11, delay = 1, togo = 0, randtag = 0\<rparr>,
                    4 \<mapsto> \<lparr>wire = 4, pip = 12, delay = 2, togo = 0, randtag = 0\<rparr>],
        visitCnt := 4\<rparr>))"
  by (simp add: search_defs table_defs diamond_tab_def)

section \<open>Facts about the routing of one net\<close>

lemma scores_le_refl: "scores_le s s"
  by (simp add: scores_le_def)

lemma scores_le_trans: "scores_le a b \<Longrightarrow> scores_le b c \<Longrightarrow> scores_le a c"
  unfolding scores_le_def by (meson order_trans)

lemma trace_step_refl: "trace_step t t"
  by (simp add: trace_step_def scores_le_refl)

lemma trace_step_trans:
  assumes "trace_step a b" and "trace_step b c"
  shows "trace_step a c"
proof -
  have "scores_le (tscores a) (tscores c)"
    using assms by (auto simp: trace_step_def intro: scores_le_trans)
  moreover have "fst ` set (tsrc_wires a) \<subseteq> fst ` set (tsrc_wires c)"
    using assms unfolding trace_step_def by blast
  ultimately show ?thesis using assms by (simp add: trace_step_def)
qed

lemma score_incr: "score (incr m k) j = score m j + (if j = k then 1 else 0)"
  by (simp add: score_def incr_def)

lemma wire_ripup_step:
  assumes "wire_ripup A cursor t = Inr t'"
  shows "trace_step t t'" and "visited (trouter t') = visited (trouter t)"
  using assms
  by (auto simp: wire_ripup_def Let_def trace_step_def scores_le_def score_incr
           split: if_splits sum.splits)

lemma pip_ripup_step:
  assumes "pip_ripup A p t = Inr t'"
  shows "trace_step t t'" and "visited (trouter t') = visited (trouter t)"
  using assms
  by (auto simp: pip_ripup_def Let_def trace_step_def scores_le_def score_incr
           split: if_splits sum.splits)

lemma assign_keys: "fst ` set (assign w d xs) = insert w (fst ` set xs)"
  by (induction xs) auto

lemma visited_index_members:
  "net_name (snd (visited_index r w)) = net_name r"
  "ripup (snd (visited_index r w)) = ripup r"
  "routedOkay (snd (visited_index r w)) = routedOkay r"
  "failedDest (snd (visited_index r w)) = failedDest r"
  "rippedNets (snd (visited_index r w)) = rippedNets r"
  by (simp_all add: visited_index_def split: option.splits)

lemma backtrace_step:
  fixes A :: "'c Arch"
  assumes "backtrace n A cursor t = Some (Inr t')"
  shows "trace_step t t' \<and> cursor \<in> fst ` set (tsrc_wires t')"
  using assms
proof (induction n arbitrary: cursor t)
  case 0
  then show ?case by simp
next
  case (Suc n)
  show ?case
  proof (cases "map_of (tsrc_wires t) cursor \<noteq> None")
    case True
    with Suc.prems have "t' = t" by simp
    moreover from True have "cursor \<in> fst ` set (tsrc_wires t)"
      by (simp add: map_of_eq_None_iff)
    ultimately show ?thesis by (simp add: trace_step_refl)
  next
    case False
    let ?looked = "\<lambda>t1. visited_index (trouter t1) cursor"
    from False Suc.prems obtain t1 :: "'c Trace" and t2 :: "'c Trace" where
      w: "wire_ripup A cursor t = Inr t1"
      and p: "pip_ripup A (pip (fst (?looked t1))) (t1\<lparr>trouter := snd (?looked t1)\<rparr>) = Inr t2"
      and r: "backtrace n A (getPipSrcWire A (pip (fst (?looked t1))))
                (t2\<lparr>tctx := bindPip A (tctx t2) (pip (fst (?looked t1))) (net_name (trouter t2)) STRENGTH_WEAK,
                     tsrc_wires := assign cursor (delay (fst (?looked t1))) (tsrc_wires t2)\<rparr>) = Some (Inr t')"
      by (auto simp: Let_def split: sum.splits)
    let ?t1' = "t1\<lparr>trouter := snd (?looked t1)\<rparr>"
    let ?t3 = "t2\<lparr>tctx := bindPip A (tctx t2) (pip (fst (?looked t1))) (net_name (trouter t2)) STRENGTH_WEAK,
                     tsrc_wires := assign cursor (delay (fst (?looked t1))) (tsrc_wires t2)\<rparr>"
    have a: "trace_step t1 ?t1'"
      by (simp add: trace_step_def scores_le_refl visited_index_members)
    have b: "trace_step t2 ?t3"
      by (auto simp: trace_step_def scores_le_refl assign_keys)
    have c: "cursor \<in> fst ` set (tsrc_wires ?t3)" by (simp add: assign_keys)
    note i = Suc.IH [OF r]
    have "trace_step t t'"
      by (rule trace_step_trans [OF wire_ripup_step(1) [OF w]
            trace_step_trans [OF a trace_step_trans [OF pip_ripup_step(1) [OF p]
              trace_step_trans [OF b conjunct1 [OF i]]]]])
    moreover have "cursor \<in> fst ` set (tsrc_wires t')"
      using c i unfolding trace_step_def by blast
    ultimately show ?thesis by simp
  qed
qed


lemma ripup_net_empties:
  assumes "ripup_net A c nm = Inr c'"
  shows "\<exists>ni. map_of (nets A c') nm = Some ni \<and> wires ni = []"
  using assms
  by (auto simp: ripup_net_def Let_def split: option.splits if_splits)

lemma route_members:
  assumes "route fuel A c r src_wires dst_wire = Some (Inr (c', r'))"
  shows "scores r' = scores r \<and> net_name r' = net_name r \<and> ripup r' = ripup r
         \<and> ripup_penalty r' = ripup_penalty r \<and> rippedNets r' = rippedNets r
         \<and> routedOkay r' = routedOkay r \<and> maxDelay r' = maxDelay r \<and> failedDest r' = failedDest r"
proof -
  from assms obtain fin
    where l: "route_loop fuel A dst_wire (search_start A c r src_wires dst_wire) = Some (Inr fin)"
      and r: "r' = (srouter fin)\<lparr>visitCnt := visitCnt r + thisVisitCnt fin\<rparr>"
    by (rule route_result)
  have "same_members r (srouter fin)"
    by (rule same_members_trans [OF search_start_members route_loop_members [OF l]])
  then show ?thesis by (simp add: r same_members_def)
qed

lemma route_users_outcome:
  fixes A :: "'c Arch"
  assumes "route_users fuel A us t = Some (Inr t')" and "\<not> routedOkay (trouter t)"
  shows "scores_le (tscores t) (tscores t')
     \<and> (\<not> ripup (trouter t) \<longrightarrow> tscores t' = tscores t)
     \<and> net_name (trouter t') = net_name (trouter t)
     \<and> ((routedOkay (trouter t') \<and> failedDest (trouter t') = failedDest (trouter t)
          \<and> fst ` set (tsrc_wires t) \<subseteq> fst ` set (tsrc_wires t')
          \<and> (\<forall>u \<in> set us. \<exists>w. port_wire A u = Inr w \<and> w \<in> fst ` set (tsrc_wires t')))
        \<or> (\<not> routedOkay (trouter t')
            \<and> (\<exists>u \<in> set us. port_wire A u = Inr (failedDest (trouter t')))
            \<and> visited (trouter t') (failedDest (trouter t')) = None
            \<and> (\<exists>ni. map_of (nets A (tctx t')) (net_name (trouter t)) = Some ni \<and> wires ni = [])))"
  using assms
proof (induction us arbitrary: t)
  case Nil
  then show ?case by (auto simp: scores_le_refl)
next
  case (Cons u rest)
  from Cons.prems(1) obtain dst_wire c1 r1 where
    pw: "port_wire A u = Inr dst_wire"
    and ro: "route fuel A (tctx t) (trouter t) (tsrc_wires t) dst_wire = Some (Inr (c1, r1))"
    by (auto split: sum.splits option.splits)
  note m = route_members [OF ro]
  show ?case
  proof (cases "visited r1 dst_wire")
    case None
    with Cons.prems(1) pw ro obtain c2 where
      rn: "ripup_net A c1 (net_name r1) = Inr c2"
      and t': "t' = t\<lparr>tctx := c2, trouter := r1\<lparr>failedDest := dst_wire\<rparr>\<rparr>"
      by (auto split: sum.splits)
    from ripup_net_empties [OF rn] m
    have "\<exists>ni. map_of (nets A c2) (net_name (trouter t)) = Some ni \<and> wires ni = []" by simp
    with None pw m Cons.prems(2) show ?thesis
      by (auto simp: t' scores_le_refl)
  next
    case (Some q)
    let ?t1 = "t\<lparr>tctx := c1, trouter := r1\<lparr>maxDelay := max (maxDelay r1) (delay q)\<rparr>\<rparr>"
    from Some Cons.prems(1) pw ro obtain t2 :: "'c Trace" where
      bt: "backtrace fuel A dst_wire ?t1 = Some (Inr t2)"
      and re: "route_users fuel A rest t2 = Some (Inr t')"
      by (auto split: sum.splits option.splits)
    from backtrace_step [OF bt] have st: "trace_step ?t1 t2"
      and k: "dst_wire \<in> fst ` set (tsrc_wires t2)" by simp_all
    from st m Cons.prems(2) have n2: "\<not> routedOkay (trouter t2)"
      by (simp add: trace_step_def)
    note i = Cons.IH [OF re n2]
    from st m have f: "scores_le (tscores t) (tscores t2)"
      "net_name (trouter t2) = net_name (trouter t)"
      "ripup (trouter t2) = ripup (trouter t)"
      "failedDest (trouter t2) = failedDest (trouter t)"
      "fst ` set (tsrc_wires t) \<subseteq> fst ` set (tsrc_wires t2)"
      "\<not> ripup (trouter t) \<longrightarrow> tscores t2 = tscores t"
      by (simp_all add: trace_step_def)
    have s1: "scores_le (tscores t) (tscores t')"
      using f(1) i by (blast intro: scores_le_trans)
    have s2: "\<not> ripup (trouter t) \<longrightarrow> tscores t' = tscores t"
      using f(3,6) i by simp
    have s3: "net_name (trouter t') = net_name (trouter t)"
      using f(2) i by simp
    from i have "(routedOkay (trouter t') \<and> failedDest (trouter t') = failedDest (trouter t2)
          \<and> fst ` set (tsrc_wires t2) \<subseteq> fst ` set (tsrc_wires t')
          \<and> (\<forall>u \<in> set rest. \<exists>w. port_wire A u = Inr w \<and> w \<in> fst ` set (tsrc_wires t')))
        \<or> (\<not> routedOkay (trouter t')
            \<and> (\<exists>u \<in> set rest. port_wire A u = Inr (failedDest (trouter t')))
            \<and> visited (trouter t') (failedDest (trouter t')) = None
            \<and> (\<exists>ni. map_of (nets A (tctx t')) (net_name (trouter t2)) = Some ni \<and> wires ni = []))"
      by simp
    then show ?thesis
    proof
      assume g: "routedOkay (trouter t') \<and> failedDest (trouter t') = failedDest (trouter t2)
          \<and> fst ` set (tsrc_wires t2) \<subseteq> fst ` set (tsrc_wires t')
          \<and> (\<forall>u \<in> set rest. \<exists>w. port_wire A u = Inr w \<and> w \<in> fst ` set (tsrc_wires t'))"
      then have "dst_wire \<in> fst ` set (tsrc_wires t')" using k by blast
      with g pw f(4,5) have "routedOkay (trouter t') \<and> failedDest (trouter t') = failedDest (trouter t)
          \<and> fst ` set (tsrc_wires t) \<subseteq> fst ` set (tsrc_wires t')
          \<and> (\<forall>u \<in> set (u # rest). \<exists>w. port_wire A u = Inr w \<and> w \<in> fst ` set (tsrc_wires t'))"
        by auto
      with s1 s2 s3 show ?thesis by blast
    next
      assume b: "\<not> routedOkay (trouter t')
            \<and> (\<exists>u \<in> set rest. port_wire A u = Inr (failedDest (trouter t')))
            \<and> visited (trouter t') (failedDest (trouter t')) = None
            \<and> (\<exists>ni. map_of (nets A (tctx t')) (net_name (trouter t2)) = Some ni \<and> wires ni = [])"
      then have "\<not> routedOkay (trouter t')
            \<and> (\<exists>u \<in> set (u # rest). port_wire A u = Inr (failedDest (trouter t')))
            \<and> visited (trouter t') (failedDest (trouter t')) = None
            \<and> (\<exists>ni. map_of (nets A (tctx t')) (net_name (trouter t)) = Some ni \<and> wires ni = [])"
        using f(2) by auto
      with s1 s2 s3 show ?thesis by blast
    qed
  qed
qed

section \<open>Facts about the rip-up loop\<close>

text \<open>The two passes leave the iteration count and the penalty alone.\<close>

lemma pass_plain_frame:
  fixes A :: "'c Arch"
  assumes "pass_plain fuel A ns acc = Some (Inr res)"
  shows "iterCnt (fst res) = iterCnt (fst acc) \<and> penalty (fst res) = penalty (fst acc)"
  using assms
proof (induction ns arbitrary: acc)
  case Nil
  then show ?case by simp
next
  case (Cons nm rest)
  from Cons.prems obtain t :: "'c Trace" where
    r: "pass_plain fuel A rest
            ((fst acc)\<lparr>lctx := tctx t, lscores := tscores t\<rparr>,
             if \<not> routedOkay (trouter t) then List.insert nm (snd acc) else snd acc) = Some (Inr res)"
    by (auto split: option.splits sum.splits)
  from Cons.IH [OF r] show ?case by simp
qed

lemma pass_ripup_frame:
  fixes A :: "'c Arch"
  assumes "pass_ripup fuel A ns st = Some (Inr st')"
  shows "iterCnt st' = iterCnt st \<and> penalty st' = penalty st"
  using assms
proof (induction ns arbitrary: st)
  case Nil
  then show ?case by simp
next
  case (Cons nm rest)
  from Cons.prems obtain t :: "'c Trace" where
    r: "pass_ripup fuel A rest
              (st\<lparr>lctx := tctx t, lscores := tscores t,
                  netsQueue := fold List.insert (rippedNets (trouter t)) (netsQueue st)\<rparr>) = Some (Inr st')"
    by (auto split: option.splits sum.splits if_splits)
  from Cons.IH [OF r] show ?case by simp
qed

lemma router1_iteration_frame:
  fixes A :: "'c Arch"
  assumes "router1_iteration fuel A st = Some (Inr st')"
  shows "iterCnt st' = iterCnt st + 1"
    and "penalty st' = (if iterCnt st' \<in> {8, 16, 32, 64, 128}
                        then penalty st + getRipupDelayPenalty A else penalty st)"
proof -
  let ?na = "sorted_shuffle A (lctx st) (netsQueue st)"
  let ?st1 = "st\<lparr>iterCnt := iterCnt st + 1, lctx := snd ?na, netsQueue := []\<rparr>"
  from assms obtain st2 :: "'c Loop" and rq where
    a: "pass_plain fuel A (fst ?na) (?st1, []) = Some (Inr (st2, rq))"
    by (auto simp: router1_iteration_def Let_def split: option.splits sum.splits)
  from pass_plain_frame [OF a] have f2: "iterCnt st2 = iterCnt st + 1" "penalty st2 = penalty st"
    by simp_all
  let ?ra = "sorted_shuffle A (lctx st2) rq"
  from assms a obtain st3 :: "'c Loop" where
    b: "(if rq \<noteq> [] then pass_ripup fuel A (fst ?ra) (st2\<lparr>lctx := snd ?ra\<rparr>) else Some (Inr st2)) = Some (Inr st3)"
    and c: "st' = (if iterCnt st3 = 8 \<or> iterCnt st3 = 16 \<or> iterCnt st3 = 32 \<or>
                                iterCnt st3 = 64 \<or> iterCnt st3 = 128
                             then st3\<lparr>penalty := penalty st3 + getRipupDelayPenalty A\<rparr>
                             else st3)"
    unfolding router1_iteration_def Let_def
    by (auto split: option.splits sum.splits)
  have f3: "iterCnt st3 = iterCnt st + 1 \<and> penalty st3 = penalty st"
  proof (cases "rq = []")
    case True
    with b f2 show ?thesis by simp
  next
    case False
    with b have "pass_ripup fuel A (fst ?ra) (st2\<lparr>lctx := snd ?ra\<rparr>) = Some (Inr st3)" by simp
    from pass_ripup_frame [OF this] f2 show ?thesis by simp
  qed
  show "iterCnt st' = iterCnt st + 1" using c f3 by auto
  show "penalty st' = (if iterCnt st' \<in> {8, 16, 32, 64, 128}
                        then penalty st + getRipupDelayPenalty A else penalty st)"
    using c f3 by auto
qed

section \<open>Claim C3: the cost of an edge\<close>



section \<open>Claim C1: the outcome of routing a net\<close>



section \<open>Claim C2: the rip-up loop ends\<close>












section \<open>Claim C4: the limit on edge examinations\<close>




















section \<open>Claim C5: the tiebreak of a relaxed entry\<close>

text \<open>
  Claim C5 says that the entry queued on a relaxation carries a fresh tiebreak drawn
  from the generator. The code draws the value but stores it in the popped entry:
  the queued entry and the entry written to the visited map keep the tag 0.
\<close>

lemma relax_tag:
  "last (squeue (relax A dst_wire p next_wire next_delay st)) =
     \<lparr>wire = next_wire, pip = p, delay = next_delay, togo = estimateDelay A next_wire dst_wire, randtag = 0\<rparr>
   \<and> visited (srouter (relax A dst_wire p next_wire next_delay st)) next_wire =
     Some \<lparr>wire = next_wire, pip = p, delay = next_delay, togo = estimateDelay A next_wire dst_wire, randtag = 0\<rparr>
   \<and> randtag (sqw (relax A dst_wire p next_wire next_delay st)) = fst (rng A (sctx st))"
  by (simp add: relax_def Let_def)

text \<open>
  Claim C5 at a concrete input: the search from wire 1 to wire 2 over pip 10, generator
  seeded with 7. The source drew 7; the relaxation of wire 2 draws 8, which ends up
  in the popped entry, and the entry queued for wire 2 has tag 0.
\<close>

theorem relaxed_entry_tag_not_drawn:
  "(case examine_pip (table_arch direct_tab 0 10 False) 2 seeded_search 10 of
      Inl e \<Rightarrow> False
    | Inr st \<Rightarrow> map wire (squeue st) = [2] \<and> map randtag (squeue st) = [0] \<and> randtag (sqw st) = 8
        \<and> seed (sctx st) = 9 \<and> map_option randtag (visited (srouter st) 2) = Some 0)"
  by code_simp

section \<open>Claim C6: the schedule of the penalty\<close>

lemma bumps_step: "bumps (i + 1) = bumps i + (if i + 1 \<in> {8, 16, 32, 64, 128} then 1 else 0)"
  by (auto simp: bumps_def)

lemma router1_loop_penalty:
  fixes A :: "'c Arch"
  assumes "router1_loop k fuel A st = Some (Inr (b, fin))"
    and "penalty st = getRipupDelayPenalty A * (1 + bumps (iterCnt st))"
  shows "penalty fin = getRipupDelayPenalty A * (1 + bumps (iterCnt fin))"
  using assms
proof (induction k arbitrary: st)
  case 0
  then show ?case by simp
next
  case (Suc k)
  show ?case
  proof (cases "netsQueue st \<noteq> [] \<and> iterCnt st \<noteq> 200")
    case False
    with Suc.prems show ?thesis by (auto split: if_splits)
  next
    case True
    with Suc.prems(1) obtain mid :: "'c Loop" where m: "router1_iteration fuel A st = Some (Inr mid)"
      and r: "router1_loop k fuel A mid = Some (Inr (b, fin))"
      by (auto split: option.splits sum.splits)
    note f = router1_iteration_frame [OF m]
    have "penalty mid = getRipupDelayPenalty A * (1 + bumps (iterCnt mid))"
      unfolding f(1) bumps_step using f Suc.prems(2) by (simp add: algebra_simps)
    from Suc.IH [OF r this] show ?thesis .
  qed
qed

text \<open>
  Claim C6: \<open>ripup_penalty\<close> starts at the device's nominal penalty and grows by that
  same amount at the end of the iterations 8, 16, 32, 64 and 128 and of no other:
  each iteration adds one to \<open>iterCnt\<close> and adds the nominal penalty exactly when the
  new count is one of the five, so when the loop ends after \<open>iterCnt\<close> iterations the
  penalty is the nominal one times one plus the number of those boundaries passed.
\<close>

theorem penalty_schedule:
  "(router1_try k fuel A c = Some (Inr (b, fin)) \<longrightarrow>
      penalty fin = getRipupDelayPenalty A * (1 + bumps (iterCnt fin)))
   \<and> (router1_iteration fuel A st = Some (Inr st') \<longrightarrow>
        iterCnt st' = iterCnt st + 1
        \<and> penalty st' = (if iterCnt st' \<in> {8, 16, 32, 64, 128}
                          then penalty st + getRipupDelayPenalty A else penalty st))"
proof (intro conjI impI)
  assume i: "router1_iteration fuel A st = Some (Inr st')"
  show "iterCnt st' = iterCnt st + 1" by (rule router1_iteration_frame [OF i])
  show "penalty st' = (if iterCnt st' \<in> {8, 16, 32, 64, 128}
                          then penalty st + getRipupDelayPenalty A else penalty st)"
    by (rule router1_iteration_frame [OF i])
next
  assume t: "router1_try k fuel A c = Some (Inr (b, fin))"
  let ?st0 = "\<lparr>lctx = c, lscores = RipupScoreboard_empty, netsQueue = unrouted_nets A c,
                 iterCnt = 0, penalty = getRipupDelayPenalty A\<rparr>"
  have p0: "penalty ?st0 = getRipupDelayPenalty A * (1 + bumps (iterCnt ?st0))"
    by (simp add: bumps_def)
  show "penalty fin = getRipupDelayPenalty A * (1 + bumps (iterCnt fin))"
  proof (cases "unrouted_nets A c = []")
    case True
    with t have "fin = ?st0" by (simp add: router1_try_def)
    with p0 show ?thesis by simp
  next
    case False
    with t have "router1_loop k fuel A ?st0 = Some (Inr (b, fin))"
      by (auto simp: router1_try_def split: sum.splits)
    from router1_loop_penalty [OF this p0] show ?thesis .
  qed
qed


text \<open>
  The eighth iteration on the one-pip device raises the penalty from 10 to 20; a whole
  run on it ends after one iteration with the penalty still 10.
\<close>

theorem penalty_schedule_witness:
  "(\<exists>st'. router1_iteration 9 (table_arch direct_tab 0 10 False) seventh_round = Some (Inr st')
       \<and> iterCnt st' = 8 \<and> penalty st' = 20)
   \<and> (\<exists>fin. router1_try 201 9 (table_arch direct_tab 0 10 False) direct_ctx = Some (Inr (True, fin))
       \<and> iterCnt fin = 1 \<and> penalty fin = 10)"
proof -
  let ?A = "table_arch direct_tab 0 10 False"
  have "case router1_iteration 9 ?A seventh_round of Some (Inr st') \<Rightarrow> True | _ \<Rightarrow> False"
    by code_simp
  then obtain st' where i: "router1_iteration 9 ?A seventh_round = Some (Inr st')"
    by (auto split: option.splits sum.splits)
  have "case router1_try 201 9 ?A direct_ctx of Some (Inr (b, fin)) \<Rightarrow> b \<and> iterCnt fin = 1 | _ \<Rightarrow> False"
    by code_simp
  then obtain fin where t: "router1_try 201 9 ?A direct_ctx = Some (Inr (True, fin))"
    and n: "iterCnt fin = 1"
    by (auto split: option.splits sum.splits)
  have g: "getRipupDelayPenalty ?A = 10" by (simp add: table_arch_def)
  have s: "iterCnt seventh_round = 7" "penalty seventh_round = 10" by (simp_all add: seventh_round_def)
  from penalty_schedule [of 201 9 ?A direct_ctx True fin seventh_round st'] i t
  have "iterCnt st' = 8 \<and> penalty st' = 20 \<and> penalty fin = 10"
    by (simp add: g s n bumps_def)
  with i t n show ?thesis by blast
qed

section \<open>Claim C7: the scoreboard only grows\<close>

lemma Router_net_scores:
  fixes A :: "'c Arch"
  assumes "Router_net fuel A c sc nm rip pen = Some (Inr t)"
  shows "scores_le sc (tscores t) \<and> (\<not> rip \<longrightarrow> tscores t = sc)"
proof -
  from assms obtain users_array and t0 :: "'c Trace" where
    s: "Router_net_start A c sc nm rip pen = Inr (users_array, t0)"
    and u: "route_users fuel A users_array t0 = Some (Inr t)"
    by (auto simp: Router_net_def split: sum.splits)
  from s have i: "trouter t0 = Router_init sc nm rip pen" "tscores t0 = sc"
    by (auto simp: Router_net_start_def Let_def split: option.splits sum.splits)
  then have z: "\<not> routedOkay (trouter t0)" "ripup (trouter t0) = rip"
    by (simp_all add: Router_init_def)
  from route_users_outcome [OF u z(1)] z(2) i(2) show ?thesis by simp
qed

lemma pass_plain_scores:
  fixes A :: "'c Arch"
  assumes "pass_plain fuel A ns acc = Some (Inr res)"
  shows "lscores (fst res) = lscores (fst acc)"
  using assms
proof (induction ns arbitrary: acc)
  case Nil
  then show ?case by simp
next
  case (Cons nm rest)
  from Cons.prems obtain t :: "'c Trace" where
    n: "Router_net fuel A (lctx (fst acc)) (lscores (fst acc)) nm False 0 = Some (Inr t)"
    and r: "pass_plain fuel A rest
            ((fst acc)\<lparr>lctx := tctx t, lscores := tscores t\<rparr>,
             if \<not> routedOkay (trouter t) then List.insert nm (snd acc) else snd acc) = Some (Inr res)"
    by (auto split: option.splits sum.splits)
  from Cons.IH [OF r] Router_net_scores [OF n] show ?case by simp
qed

lemma pass_ripup_scores:
  fixes A :: "'c Arch"
  assumes "pass_ripup fuel A ns st = Some (Inr st')"
  shows "scores_le (lscores st) (lscores st')"
  using assms
proof (induction ns arbitrary: st)
  case Nil
  then show ?case by (simp add: scores_le_refl)
next
  case (Cons nm rest)
  from Cons.prems obtain t :: "'c Trace" where
    n: "Router_net fuel A (lctx st) (lscores st) nm True (penalty st) = Some (Inr t)"
    and r: "pass_ripup fuel A rest
              (st\<lparr>lctx := tctx t, lscores := tscores t,
                  netsQueue := fold List.insert (rippedNets (trouter t)) (netsQueue st)\<rparr>) = Some (Inr st')"
    by (auto split: option.splits sum.splits if_splits)
  from Cons.IH [OF r] have "scores_le (tscores t) (lscores st')" by simp
  with Router_net_scores [OF n] show ?case by (blast intro: scores_le_trans)
qed

lemma router1_iteration_scores:
  fixes A :: "'c Arch"
  assumes "router1_iteration fuel A st = Some (Inr st')"
  shows "scores_le (lscores st) (lscores st')"
proof -
  let ?na = "sorted_shuffle A (lctx st) (netsQueue st)"
  let ?st1 = "st\<lparr>iterCnt := iterCnt st + 1, lctx := snd ?na, netsQueue := []\<rparr>"
  from assms obtain st2 :: "'c Loop" and rq where
    a: "pass_plain fuel A (fst ?na) (?st1, []) = Some (Inr (st2, rq))"
    by (auto simp: router1_iteration_def Let_def split: option.splits sum.splits)
  from pass_plain_scores [OF a] have f2: "lscores st2 = lscores st" by simp
  let ?ra = "sorted_shuffle A (lctx st2) rq"
  from assms a obtain st3 :: "'c Loop" where
    b: "(if rq \<noteq> [] then pass_ripup fuel A (fst ?ra) (st2\<lparr>lctx := snd ?ra\<rparr>) else Some (Inr st2)) = Some (Inr st3)"
    and c: "lscores st' = lscores st3"
    unfolding router1_iteration_def Let_def
    by (auto split: option.splits sum.splits)
  have "scores_le (lscores st) (lscores st3)"
  proof (cases "rq = []")
    case True
    with b f2 show ?thesis by (simp add: scores_le_refl)
  next
    case False
    with b have "pass_ripup fuel A (fst ?ra) (st2\<lparr>lctx := snd ?ra\<rparr>) = Some (Inr st3)" by simp
    from pass_ripup_scores [OF this] f2 show ?thesis by simp
  qed
  with c show ?thesis by simp
qed

lemma router1_loop_scores:
  fixes A :: "'c Arch"
  assumes "router1_loop k fuel A st = Some (Inr (b, fin))"
  shows "scores_le (lscores st) (lscores fin)"
  using assms
proof (induction k arbitrary: st)
  case 0
  then show ?case by simp
next
  case (Suc k)
  show ?case
  proof (cases "netsQueue st \<noteq> [] \<and> iterCnt st \<noteq> 200")
    case False
    with Suc.prems show ?thesis by (auto simp: scores_le_refl split: if_splits)
  next
    case True
    with Suc.prems(1) obtain mid :: "'c Loop" where m: "router1_iteration fuel A st = Some (Inr mid)"
      and r: "router1_loop k fuel A mid = Some (Inr (b, fin))"
      by (auto split: option.splits sum.splits)
    show ?thesis
      by (rule scores_le_trans [OF router1_iteration_scores [OF m] Suc.IH [OF r]])
  qed
qed

lemma tallied_nil: "tallied [] s s"
  by (simp add: tallied_def)

lemma tallied_append: "tallied xs a b \<Longrightarrow> tallied ys b c \<Longrightarrow> tallied (xs @ ys) a c"
  by (simp add: tallied_def)


lemma wire_ripup_tallied:
  assumes "wire_ripup A cursor t = Inr t'"
  shows "tallied (wire_event A cursor t) (tscores t) (tscores t')"
    and "\<forall>e \<in> set (wire_event A cursor t). other_net e \<and> ripup (trouter t)"
  using assms
  by (auto simp: wire_ripup_def wire_event_def Let_def tallied_def score_incr
           split: if_splits sum.splits)

lemma pip_ripup_tallied:
  assumes "pip_ripup A p t = Inr t'"
  shows "tallied (pip_event A p t) (tscores t) (tscores t')"
    and "\<forall>e \<in> set (pip_event A p t). other_net e \<and> ripup (trouter t)"
  using assms
  by (auto simp: pip_ripup_def pip_event_def Let_def tallied_def score_incr
           split: if_splits sum.splits)

lemma backtrace_tallied:
  fixes A :: "'c Arch"
  assumes "backtrace n A cursor t = Some (Inr t')"
  shows "tallied (backtrace_events n A cursor t) (tscores t) (tscores t')
     \<and> (\<forall>e \<in> set (backtrace_events n A cursor t). other_net e \<and> ripup (trouter t))"
  using assms
proof (induction n arbitrary: cursor t)
  case 0
  then show ?case by simp
next
  case (Suc n)
  show ?case
  proof (cases "map_of (tsrc_wires t) cursor \<noteq> None")
    case True
    with Suc.prems show ?thesis by (simp add: tallied_nil)
  next
    case False
    let ?looked = "\<lambda>t1. visited_index (trouter t1) cursor"
    from False Suc.prems obtain t1 :: "'c Trace" and t2 :: "'c Trace" where
      w: "wire_ripup A cursor t = Inr t1"
      and p: "pip_ripup A (pip (fst (?looked t1))) (t1\<lparr>trouter := snd (?looked t1)\<rparr>) = Inr t2"
      and r: "backtrace n A (getPipSrcWire A (pip (fst (?looked t1))))
                (t2\<lparr>tctx := bindPip A (tctx t2) (pip (fst (?looked t1))) (net_name (trouter t2)) STRENGTH_WEAK,
                     tsrc_wires := assign cursor (delay (fst (?looked t1))) (tsrc_wires t2)\<rparr>) = Some (Inr t')"
      by (auto simp: Let_def split: sum.splits)
    let ?p = "pip (fst (?looked t1))"
    let ?t1' = "t1\<lparr>trouter := snd (?looked t1)\<rparr>"
    let ?t3 = "t2\<lparr>tctx := bindPip A (tctx t2) ?p (net_name (trouter t2)) STRENGTH_WEAK,
                     tsrc_wires := assign cursor (delay (fst (?looked t1))) (tsrc_wires t2)\<rparr>"
    note a = wire_ripup_tallied [OF w]
    note b = pip_ripup_tallied [OF p]
    note i = Suc.IH [OF r]
    have r1: "ripup (trouter ?t1') = ripup (trouter t)"
      using wire_ripup_step(1) [OF w] by (simp add: trace_step_def visited_index_members)
    have r3: "ripup (trouter ?t3) = ripup (trouter t)"
      using pip_ripup_step(1) [OF p] r1 by (simp add: trace_step_def)
    have e: "backtrace_events (Suc n) A cursor t =
        wire_event A cursor t @ pip_event A ?p ?t1' @ backtrace_events n A (getPipSrcWire A ?p) ?t3"
      using False w p by (simp add: Let_def)
    have b': "tallied (pip_event A ?p ?t1') (tscores t1) (tscores t2)" using b(1) by simp
    have i': "tallied (backtrace_events n A (getPipSrcWire A ?p) ?t3) (tscores t2) (tscores t')"
      using i by simp
    have "tallied (backtrace_events (Suc n) A cursor t) (tscores t) (tscores t')"
      unfolding e by (rule tallied_append [OF a(1) tallied_append [OF b' i']])
    moreover have "\<forall>e \<in> set (backtrace_events (Suc n) A cursor t). other_net e \<and> ripup (trouter t)"
      unfolding e using a(2) b(2) i r1 r3 by auto
    ultimately show ?thesis by simp
  qed
qed

lemma route_users_tallied:
  fixes A :: "'c Arch"
  assumes "route_users fuel A us t = Some (Inr t')"
  shows "tallied (route_users_events fuel A us t) (tscores t) (tscores t')
     \<and> (\<forall>e \<in> set (route_users_events fuel A us t). other_net e \<and> ripup (trouter t))"
  using assms
proof (induction us arbitrary: t)
  case Nil
  then show ?case by (auto simp: tallied_nil)
next
  case (Cons u rest)
  from Cons.prems(1) obtain dst_wire c1 r1 where
    pw: "port_wire A u = Inr dst_wire"
    and ro: "route fuel A (tctx t) (trouter t) (tsrc_wires t) dst_wire = Some (Inr (c1, r1))"
    by (auto split: sum.splits option.splits)
  note m = route_members [OF ro]
  show ?case
  proof (cases "visited r1 dst_wire")
    case None
    with Cons.prems(1) pw ro have "tscores t' = tscores t"
      by (auto split: sum.splits)
    with None pw ro show ?thesis by (simp add: tallied_nil)
  next
    case (Some q)
    let ?t1 = "t\<lparr>tctx := c1, trouter := r1\<lparr>maxDelay := max (maxDelay r1) (delay q)\<rparr>\<rparr>"
    from Some Cons.prems(1) pw ro obtain t2 :: "'c Trace" where
      bt: "backtrace fuel A dst_wire ?t1 = Some (Inr t2)"
      and re: "route_users fuel A rest t2 = Some (Inr t')"
      by (auto split: sum.splits option.splits)
    note a = backtrace_tallied [OF bt]
    note i = Cons.IH [OF re]
    have r2: "ripup (trouter t2) = ripup (trouter t)"
      using backtrace_step [OF bt] m by (simp add: trace_step_def)
    have e: "route_users_events fuel A (u # rest) t =
        backtrace_events fuel A dst_wire ?t1 @ route_users_events fuel A rest t2"
      using pw ro Some bt by (simp add: Let_def)
    have a': "tallied (backtrace_events fuel A dst_wire ?t1) (tscores t) (tscores t2)"
      using a by simp
    have "tallied (route_users_events fuel A (u # rest) t) (tscores t) (tscores t')"
      unfolding e by (rule tallied_append [OF a' conjunct1 [OF i]])
    moreover have "\<forall>e \<in> set (route_users_events fuel A (u # rest) t). other_net e \<and> ripup (trouter t)"
      unfolding e using a i r2 m by auto
    ultimately show ?thesis by simp
  qed
qed

lemma Router_net_tallied:
  fixes A :: "'c Arch"
  assumes "Router_net fuel A c sc nm rip pen = Some (Inr t)"
  shows "tallied (Router_net_events fuel A c sc nm rip pen) sc (tscores t)
     \<and> (\<forall>e \<in> set (Router_net_events fuel A c sc nm rip pen). other_net e \<and> rip)"
proof -
  from assms obtain users_array and t0 :: "'c Trace" where
    s: "Router_net_start A c sc nm rip pen = Inr (users_array, t0)"
    and u: "route_users fuel A users_array t0 = Some (Inr t)"
    by (auto simp: Router_net_def split: sum.splits)
  from s have i: "ripup (trouter t0) = rip" "tscores t0 = sc"
    by (auto simp: Router_net_start_def Router_init_def Let_def split: option.splits sum.splits)
  from route_users_tallied [OF u] s i show ?thesis
    by (simp add: Router_net_events_def)
qed

lemma pass_ripup_tallied:
  fixes A :: "'c Arch"
  assumes "pass_ripup fuel A ns st = Some (Inr st')"
  shows "tallied (pass_ripup_events fuel A ns st) (lscores st) (lscores st')
     \<and> (\<forall>e \<in> set (pass_ripup_events fuel A ns st). other_net e)"
  using assms
proof (induction ns arbitrary: st)
  case Nil
  then show ?case by (simp add: tallied_nil)
next
  case (Cons nm rest)
  from Cons.prems obtain t :: "'c Trace" where
    n: "Router_net fuel A (lctx st) (lscores st) nm True (penalty st) = Some (Inr t)"
    and ok: "routedOkay (trouter t)"
    and r: "pass_ripup fuel A rest
              (st\<lparr>lctx := tctx t, lscores := tscores t,
                  netsQueue := fold List.insert (rippedNets (trouter t)) (netsQueue st)\<rparr>) = Some (Inr st')"
    by (auto split: option.splits sum.splits if_splits)
  let ?st1 = "st\<lparr>lctx := tctx t, lscores := tscores t,
                  netsQueue := fold List.insert (rippedNets (trouter t)) (netsQueue st)\<rparr>"
  note a = Router_net_tallied [OF n]
  note i = Cons.IH [OF r]
  have e: "pass_ripup_events fuel A (nm # rest) st =
      Router_net_events fuel A (lctx st) (lscores st) nm True (penalty st) @ pass_ripup_events fuel A rest ?st1"
    using n ok by simp
  have i': "tallied (pass_ripup_events fuel A rest ?st1) (tscores t) (lscores st')" using i by simp
  have "tallied (pass_ripup_events fuel A (nm # rest) st) (lscores st) (lscores st')"
    unfolding e by (rule tallied_append [OF conjunct1 [OF a] i'])
  moreover have "\<forall>e \<in> set (pass_ripup_events fuel A (nm # rest) st). other_net e"
    unfolding e using a i by auto
  ultimately show ?case by simp
qed

lemma router1_iteration_tallied:
  fixes A :: "'c Arch"
  assumes "router1_iteration fuel A st = Some (Inr st')"
  shows "tallied (iteration_events fuel A st) (lscores st) (lscores st')
     \<and> (\<forall>e \<in> set (iteration_events fuel A st). other_net e)"
proof -
  let ?na = "sorted_shuffle A (lctx st) (netsQueue st)"
  let ?st1 = "st\<lparr>iterCnt := iterCnt st + 1, lctx := snd ?na, netsQueue := []\<rparr>"
  from assms obtain st2 :: "'c Loop" and rq where
    a: "pass_plain fuel A (fst ?na) (?st1, []) = Some (Inr (st2, rq))"
    by (auto simp: router1_iteration_def Let_def split: option.splits sum.splits)
  from pass_plain_scores [OF a] have f2: "lscores st2 = lscores st" by simp
  let ?ra = "sorted_shuffle A (lctx st2) rq"
  from assms a obtain st3 :: "'c Loop" where
    b: "(if rq \<noteq> [] then pass_ripup fuel A (fst ?ra) (st2\<lparr>lctx := snd ?ra\<rparr>) else Some (Inr st2)) = Some (Inr st3)"
    and c: "lscores st' = lscores st3"
    unfolding router1_iteration_def Let_def
    by (auto split: option.splits sum.splits)
  have e: "iteration_events fuel A st =
      (if rq \<noteq> [] then pass_ripup_events fuel A (fst ?ra) (st2\<lparr>lctx := snd ?ra\<rparr>) else [])"
    using a by (simp add: iteration_events_def Let_def)
  show ?thesis
  proof (cases "rq = []")
    case True
    with b f2 c e show ?thesis by (simp add: tallied_nil)
  next
    case False
    with b have "pass_ripup fuel A (fst ?ra) (st2\<lparr>lctx := snd ?ra\<rparr>) = Some (Inr st3)" by simp
    from pass_ripup_tallied [OF this] f2 c e False show ?thesis by simp
  qed
qed

lemma router1_loop_tallied:
  fixes A :: "'c Arch"
  assumes "router1_loop k fuel A st = Some (Inr (b, fin))"
  shows "tallied (loop_events k fuel A st) (lscores st) (lscores fin)
     \<and> (\<forall>e \<in> set (loop_events k fuel A st). other_net e)"
  using assms
proof (induction k arbitrary: st)
  case 0
  then show ?case by simp
next
  case (Suc k)
  show ?case
  proof (cases "netsQueue st \<noteq> [] \<and> iterCnt st \<noteq> 200")
    case False
    with Suc.prems show ?thesis by (auto simp: tallied_nil split: if_splits)
  next
    case True
    with Suc.prems(1) obtain mid :: "'c Loop" where m: "router1_iteration fuel A st = Some (Inr mid)"
      and r: "router1_loop k fuel A mid = Some (Inr (b, fin))"
      by (auto split: option.splits sum.splits)
    note a = router1_iteration_tallied [OF m]
    note i = Suc.IH [OF r]
    have e: "loop_events (Suc k) fuel A st = iteration_events fuel A st @ loop_events k fuel A mid"
      using True m by simp
    have "tallied (loop_events (Suc k) fuel A st) (lscores st) (lscores fin)"
      unfolding e by (rule tallied_append [OF conjunct1 [OF a] conjunct1 [OF i]])
    moreover have "\<forall>e \<in> set (loop_events (Suc k) fuel A st). other_net e"
      unfolding e using a i by auto
    ultimately show ?thesis by simp
  qed
qed

lemma bottleneck_events:
  "iteration_events 9 (table_arch bottleneck_tab 0 10 False) bottleneck_round = [WireConflict 2 3 1]"
  by code_simp

lemma switch_events:
  "iteration_events 9 (table_arch direct_tab 0 10 False) switch_round = [PipConflict 1 10 3]"
  by code_simp

lemma empty_scores:
  "score (wireScores RipupScoreboard_empty) w = 0" "score (pipScores RipupScoreboard_empty) p = 0"
  "score (netWireScores RipupScoreboard_empty) k = 0" "score (netPipScores RipupScoreboard_empty) j = 0"
  by (simp_all add: RipupScoreboard_empty_def score_def)

text \<open>
  Claim C7: no counter of the scoreboard of \<open>router1\<close> ever decreases: not over the
  rip-up loop, not over one iteration, not over the routing of one net. The counters
  change only by the conflicts that back-traces meet: over the rip-up loop, over one
  iteration, over the routing of one net and over one back-trace, every counter ends
  at its initial value plus what the conflicts met on the way add to it, where a wire
  conflict adds one to \<open>wireScores[cursor]\<close>, to \<open>netWireScores[(current net, cursor)]\<close>
  and to \<open>netWireScores[(conflicting net, cursor)]\<close>, and a pip conflict adds one to
  \<open>pipScores[pip]\<close>, to \<open>netPipScores[(current net, pip)]\<close> and to
  \<open>netPipScores[(conflicting net, pip)]\<close>. Every conflict is with another net, and is
  met in rip-up mode. A path search leaves the scoreboard alone, and so does the
  routing of a net without rip-up. In one step of a back-trace, a wire held by no
  other net changes nothing, and a wire held by another net changes exactly the three
  counters named; the same holds for the pip. (The increments go to the scoreboard
  the constructor received by reference; the searches of the same constructor read
  the copy made when it started.)
\<close>

theorem scoreboard_monotone:
  fixes A :: "'c Arch"
  shows "(router1_loop k fuel A st = Some (Inr (b, fin)) \<longrightarrow>
        scores_le (lscores st) (lscores fin)
        \<and> tallied (loop_events k fuel A st) (lscores st) (lscores fin)
        \<and> (\<forall>e \<in> set (loop_events k fuel A st). other_net e))
   \<and> (router1_iteration fuel A st = Some (Inr st') \<longrightarrow>
        scores_le (lscores st) (lscores st')
        \<and> tallied (iteration_events fuel A st) (lscores st) (lscores st')
        \<and> (\<forall>e \<in> set (iteration_events fuel A st). other_net e))
   \<and> (Router_net fuel A c sc nm rip pen = Some (Inr t) \<longrightarrow>
        scores_le sc (tscores t) \<and> (\<not> rip \<longrightarrow> tscores t = sc)
        \<and> tallied (Router_net_events fuel A c sc nm rip pen) sc (tscores t)
        \<and> (\<forall>e \<in> set (Router_net_events fuel A c sc nm rip pen). other_net e \<and> rip))
   \<and> (backtrace n A cursor tr = Some (Inr tr2) \<longrightarrow>
        tallied (backtrace_events n A cursor tr) (tscores tr) (tscores tr2)
        \<and> (\<forall>e \<in> set (backtrace_events n A cursor tr). other_net e \<and> ripup (trouter tr)))
   \<and> (route fuel A c r src_wires dst_wire = Some (Inr (c', r')) \<longrightarrow> scores r' = scores r)
   \<and> (wire_ripup A cursor tr = Inr tr' \<longrightarrow>
        (if getConflictingWireNet A (tctx tr) cursor = IdString_empty then tscores tr' = tscores tr
         else getConflictingWireNet A (tctx tr) cursor \<noteq> net_name (trouter tr)
           \<and> (\<forall>w. score (wireScores (tscores tr')) w =
                    score (wireScores (tscores tr)) w + (if w = cursor then 1 else 0))
           \<and> (\<forall>key. score (netWireScores (tscores tr')) key =
                    score (netWireScores (tscores tr)) key
                    + (if key = (net_name (trouter tr), cursor)
                          \<or> key = (getConflictingWireNet A (tctx tr) cursor, cursor) then 1 else 0))
           \<and> pipScores (tscores tr') = pipScores (tscores tr)
           \<and> netPipScores (tscores tr') = netPipScores (tscores tr)))
   \<and> (pip_ripup A p tr = Inr tr' \<longrightarrow>
        (if getConflictingPipNet A (tctx tr) p = IdString_empty then tscores tr' = tscores tr
         else getConflictingPipNet A (tctx tr) p \<noteq> net_name (trouter tr)
           \<and> (\<forall>q. score (pipScores (tscores tr')) q =
                    score (pipScores (tscores tr)) q + (if q = p then 1 else 0))
           \<and> (\<forall>key. score (netPipScores (tscores tr')) key =
                    score (netPipScores (tscores tr)) key
                    + (if key = (net_name (trouter tr), p)
                          \<or> key = (getConflictingPipNet A (tctx tr) p, p) then 1 else 0))
           \<and> wireScores (tscores tr') = wireScores (tscores tr)
           \<and> netWireScores (tscores tr') = netWireScores (tscores tr)))"
proof (intro conjI impI)
  assume l: "router1_loop k fuel A st = Some (Inr (b, fin))"
  then show "scores_le (lscores st) (lscores fin)" by (rule router1_loop_scores)
  from router1_loop_tallied [OF l]
  show "tallied (loop_events k fuel A st) (lscores st) (lscores fin)"
    and "\<forall>e \<in> set (loop_events k fuel A st). other_net e" by blast+
next
  assume i: "router1_iteration fuel A st = Some (Inr st')"
  then show "scores_le (lscores st) (lscores st')" by (rule router1_iteration_scores)
  from router1_iteration_tallied [OF i]
  show "tallied (iteration_events fuel A st) (lscores st) (lscores st')"
    and "\<forall>e \<in> set (iteration_events fuel A st). other_net e" by blast+
next
  assume n: "Router_net fuel A c sc nm rip pen = Some (Inr t)"
  show "scores_le sc (tscores t)" using Router_net_scores [OF n] by simp
  show "tscores t = sc" if "\<not> rip" using Router_net_scores [OF n] that by simp
  from Router_net_tallied [OF n]
  show "tallied (Router_net_events fuel A c sc nm rip pen) sc (tscores t)"
    and "\<forall>e \<in> set (Router_net_events fuel A c sc nm rip pen). other_net e \<and> rip" by blast+
next
  assume bt: "backtrace n A cursor tr = Some (Inr tr2)"
  from backtrace_tallied [OF bt]
  show "tallied (backtrace_events n A cursor tr) (tscores tr) (tscores tr2)"
    and "\<forall>e \<in> set (backtrace_events n A cursor tr). other_net e \<and> ripup (trouter tr)" by blast+
next
  assume "route fuel A c r src_wires dst_wire = Some (Inr (c', r'))"
  from route_members [OF this] show "scores r' = scores r" by simp
next
  assume "wire_ripup A cursor tr = Inr tr'"
  then show "if getConflictingWireNet A (tctx tr) cursor = IdString_empty then tscores tr' = tscores tr
         else getConflictingWireNet A (tctx tr) cursor \<noteq> net_name (trouter tr)
           \<and> (\<forall>w. score (wireScores (tscores tr')) w =
                    score (wireScores (tscores tr)) w + (if w = cursor then 1 else 0))
           \<and> (\<forall>key. score (netWireScores (tscores tr')) key =
                    score (netWireScores (tscores tr)) key
                    + (if key = (net_name (trouter tr), cursor)
                          \<or> key = (getConflictingWireNet A (tctx tr) cursor, cursor) then 1 else 0))
           \<and> pipScores (tscores tr') = pipScores (tscores tr)
           \<and> netPipScores (tscores tr') = netPipScores (tscores tr)"
    by (auto simp: wire_ripup_def Let_def score_incr split: if_splits sum.splits)
next
  assume "pip_ripup A p tr = Inr tr'"
  then show "if getConflictingPipNet A (tctx tr) p = IdString_empty then tscores tr' = tscores tr
         else getConflictingPipNet A (tctx tr) p \<noteq> net_name (trouter tr)
           \<and> (\<forall>q. score (pipScores (tscores tr')) q =
                    score (pipScores (tscores tr)) q + (if q = p then 1 else 0))
           \<and> (\<forall>key. score (netPipScores (tscores tr')) key =
                    score (netPipScores (tscores tr)) key
                    + (if key = (net_name (trouter tr), p)
                          \<or> key = (getConflictingPipNet A (tctx tr) p, p) then 1 else 0))
           \<and> wireScores (tscores tr') = wireScores (tscores tr)
           \<and> netWireScores (tscores tr') = netWireScores (tscores tr)"
    by (auto simp: pip_ripup_def Let_def score_incr split: if_splits sum.splits)
qed

text \<open>
  Two nets that need wire 3: the first iteration routes net 1, fails on net 2, and
  routes net 2 with rip-up, which takes wire 3 from net 1 and queues net 1 again; the
  one conflict is that of net 2 with net 1 on wire 3, and its three counters are 1
  afterwards. On the device where net 3 holds pip 10, the iteration routes net 1 with
  rip-up through pip 10: the one conflict is that of net 1 with net 3 on pip 10, its
  three counters are 1 afterwards, and net 3 is queued. On a scoreboard where wire 3
  already counts 4, a wire conflict makes it 5, and likewise for pip 10.
\<close>

theorem scoreboard_monotone_witness:
  "(\<exists>st'. router1_iteration 9 (table_arch bottleneck_tab 0 10 False) bottleneck_round = Some (Inr st')
       \<and> scores_le (lscores bottleneck_round) (lscores st')
       \<and> iteration_events 9 (table_arch bottleneck_tab 0 10 False) bottleneck_round = [WireConflict 2 3 1]
       \<and> score (wireScores (lscores st')) 3 = 1
       \<and> score (wireScores (lscores st')) 4 = 0
       \<and> score (netWireScores (lscores st')) (2, 3) = 1
       \<and> score (netWireScores (lscores st')) (1, 3) = 1
       \<and> score (pipScores (lscores st')) 10 = 0
       \<and> netsQueue st' = [1])
   \<and> (\<exists>st'. router1_iteration 9 (table_arch direct_tab 0 10 False) switch_round = Some (Inr st')
       \<and> iteration_events 9 (table_arch direct_tab 0 10 False) switch_round = [PipConflict 1 10 3]
       \<and> score (pipScores (lscores st')) 10 = 1
       \<and> score (netPipScores (lscores st')) (1, 10) = 1
       \<and> score (netPipScores (lscores st')) (3, 10) = 1
       \<and> score (netPipScores (lscores st')) (2, 10) = 0
       \<and> score (wireScores (lscores st')) 2 = 0
       \<and> netsQueue st' = [3])
   \<and> (\<exists>tr'. wire_ripup (table_arch bottleneck_tab 0 10 False) 3 held_trace = Inr tr'
       \<and> score (wireScores (tscores tr')) 3 = 5
       \<and> score (wireScores (tscores tr')) 4 = 0
       \<and> score (netWireScores (tscores tr')) (2, 3) = 1
       \<and> score (netWireScores (tscores tr')) (1, 3) = 1)
   \<and> (\<exists>tr'. pip_ripup (table_arch direct_tab 0 10 False) 10 locked_trace = Inr tr'
       \<and> score (pipScores (tscores tr')) 10 = 5
       \<and> score (pipScores (tscores tr')) 11 = 0
       \<and> score (netPipScores (tscores tr')) (1, 10) = 1
       \<and> score (netPipScores (tscores tr')) (3, 10) = 1)"
proof -
  let ?A = "table_arch bottleneck_tab 0 10 False"
  let ?B = "table_arch direct_tab 0 10 False"
  have "case router1_iteration 9 ?A bottleneck_round of
          Some (Inr st') \<Rightarrow> netsQueue st' = [1] | _ \<Rightarrow> False"
    by code_simp
  then obtain st1 where
    i1: "router1_iteration 9 ?A bottleneck_round = Some (Inr st1)" and q1: "netsQueue st1 = [1]"
    by (auto split: option.splits sum.splits)
  have "case router1_iteration 9 ?B switch_round of
          Some (Inr st') \<Rightarrow> netsQueue st' = [3] | _ \<Rightarrow> False"
    by code_simp
  then obtain st2 where
    i2: "router1_iteration 9 ?B switch_round = Some (Inr st2)" and q2: "netsQueue st2 = [3]"
    by (auto split: option.splits sum.splits)
  have "case wire_ripup ?A 3 held_trace of Inr tr' \<Rightarrow> True | _ \<Rightarrow> False"
    by code_simp
  then obtain tr1 where w: "wire_ripup ?A 3 held_trace = Inr tr1"
    by (auto split: sum.splits)
  have "case pip_ripup ?B 10 locked_trace of Inr tr' \<Rightarrow> True | _ \<Rightarrow> False"
    by code_simp
  then obtain tr2 where p: "pip_ripup ?B 10 locked_trace = Inr tr2"
    by (auto split: sum.splits)
  have z1: "lscores bottleneck_round = RipupScoreboard_empty" by (simp add: bottleneck_round_def)
  have z2: "lscores switch_round = RipupScoreboard_empty" by (simp add: switch_round_def)
  note m1 = scoreboard_monotone [where A = ?A and fuel = 9 and st = bottleneck_round and st' = st1
      and cursor = 3 and tr = held_trace and tr' = tr1]
  from m1 i1 have g1: "scores_le (lscores bottleneck_round) (lscores st1)"
    and t1: "tallied (iteration_events 9 ?A bottleneck_round) (lscores bottleneck_round) (lscores st1)"
    by blast+
  from t1 have s1: "score (wireScores (lscores st1)) 3 = 1 \<and> score (wireScores (lscores st1)) 4 = 0
       \<and> score (netWireScores (lscores st1)) (2, 3) = 1 \<and> score (netWireScores (lscores st1)) (1, 3) = 1
       \<and> score (pipScores (lscores st1)) 10 = 0"
    unfolding bottleneck_events z1 by (simp add: tallied_def empty_scores)
  have c: "getConflictingWireNet ?A (tctx held_trace) 3 = 1"
    by (simp add: table_arch_def held_trace_def owner_def)
  have h: "net_name (trouter held_trace) = 2" "wireScores (tscores held_trace) = [3 \<mapsto> 4]"
    "netWireScores (tscores held_trace) = Map.empty"
    by (simp_all add: held_trace_def Router_init_def RipupScoreboard_empty_def)
  from m1 w have s3: "score (wireScores (tscores tr1)) 3 = 5
       \<and> score (wireScores (tscores tr1)) 4 = 0
       \<and> score (netWireScores (tscores tr1)) (2, 3) = 1
       \<and> score (netWireScores (tscores tr1)) (1, 3) = 1"
    by (simp add: c h IdString_empty_def score_def)
  note m2 = scoreboard_monotone [where A = ?B and fuel = 9 and st = switch_round and st' = st2
      and p = 10 and tr = locked_trace and tr' = tr2]
  from m2 i2 have t2: "tallied (iteration_events 9 ?B switch_round) (lscores switch_round) (lscores st2)"
    by blast
  from t2 have s2: "score (pipScores (lscores st2)) 10 = 1
       \<and> score (netPipScores (lscores st2)) (1, 10) = 1
       \<and> score (netPipScores (lscores st2)) (3, 10) = 1
       \<and> score (netPipScores (lscores st2)) (2, 10) = 0
       \<and> score (wireScores (lscores st2)) 2 = 0"
    unfolding switch_events z2 by (simp add: tallied_def empty_scores)
  have c2: "getConflictingPipNet ?B (tctx locked_trace) 10 = 3"
    by (simp add: table_arch_def locked_trace_def switch_ctx_def owner_def)
  have h2: "net_name (trouter locked_trace) = 1" "pipScores (tscores locked_trace) = [10 \<mapsto> 4]"
    "netPipScores (tscores locked_trace) = Map.empty"
    by (simp_all add: locked_trace_def Router_init_def RipupScoreboard_empty_def)
  from m2 p have s4: "score (pipScores (tscores tr2)) 10 = 5
       \<and> score (pipScores (tscores tr2)) 11 = 0
       \<and> score (netPipScores (tscores tr2)) (1, 10) = 1
       \<and> score (netPipScores (tscores tr2)) (3, 10) = 1"
    by (simp add: c2 h2 IdString_empty_def score_def)
  from i1 g1 s1 q1 bottleneck_events have one:
    "\<exists>st'. router1_iteration 9 ?A bottleneck_round = Some (Inr st')
       \<and> scores_le (lscores bottleneck_round) (lscores st')
       \<and> iteration_events 9 ?A bottleneck_round = [WireConflict 2 3 1]
       \<and> score (wireScores (lscores st')) 3 = 1
       \<and> score (wireScores (lscores st')) 4 = 0
       \<and> score (netWireScores (lscores st')) (2, 3) = 1
       \<and> score (netWireScores (lscores st')) (1, 3) = 1
       \<and> score (pipScores (lscores st')) 10 = 0
       \<and> netsQueue st' = [1]" by blast
  from i2 s2 q2 switch_events have two:
    "\<exists>st'. router1_iteration 9 ?B switch_round = Some (Inr st')
       \<and> iteration_events 9 ?B switch_round = [PipConflict 1 10 3]
       \<and> score (pipScores (lscores st')) 10 = 1
       \<and> score (netPipScores (lscores st')) (1, 10) = 1
       \<and> score (netPipScores (lscores st')) (3, 10) = 1
       \<and> score (netPipScores (lscores st')) (2, 10) = 0
       \<and> score (wireScores (lscores st')) 2 = 0
       \<and> netsQueue st' = [3]" by blast
  from w s3 have three: "\<exists>tr'. wire_ripup ?A 3 held_trace = Inr tr'
       \<and> score (wireScores (tscores tr')) 3 = 5
       \<and> score (wireScores (tscores tr')) 4 = 0
       \<and> score (netWireScores (tscores tr')) (2, 3) = 1
       \<and> score (netWireScores (tscores tr')) (1, 3) = 1" by blast
  from p s4 have four: "\<exists>tr'. pip_ripup ?B 10 locked_trace = Inr tr'
       \<and> score (pipScores (tscores tr')) 10 = 5
       \<and> score (pipScores (tscores tr')) 11 = 0
       \<and> score (netPipScores (tscores tr')) (1, 10) = 1
       \<and> score (netPipScores (tscores tr')) (3, 10) = 1" by blast
  from one two three four show ?thesis by (intro conjI)
qed

section \<open>Claim C8: accounting of the visit counters\<close>

text \<open>What one examination adds to the counters and to the visited map.\<close>

lemma examine_pip_outcome:
  assumes "examine_pip A dst_wire st p = Inr st'"
  shows "thisVisitCnt st' = thisVisitCnt st + 1"
    and "revisitCnt (srouter st') = revisitCnt (srouter st) + (if examine_outcome A st p = Revisit then 1 else 0)"
    and "overtimeRevisitCnt (srouter st') =
           overtimeRevisitCnt (srouter st) + (if examine_outcome A st p = Overtime then 1 else 0)"
    and "dom (visited (srouter st')) =
           (if examine_outcome A st p = Skipped then dom (visited (srouter st))
            else insert (getPipDstWire A p) (dom (visited (srouter st))))"
    and "examine_outcome A st p = Fresh \<longleftrightarrow>
           examine_outcome A st p \<noteq> Skipped \<and> getPipDstWire A p \<notin> dom (visited (srouter st))"
  using assms
  by (auto simp: examine_pip_def examine_outcome_def Let_def relax_counts split: option.splits if_splits)

lemma tally_nil:
  "finite (dom (visited (srouter st))) \<Longrightarrow> S \<subseteq> dom (visited (srouter st)) \<Longrightarrow>
   thisVisitCnt st' = thisVisitCnt st \<Longrightarrow> srouter st' = srouter st \<Longrightarrow> tally S st [] st'"
  by (simp add: tally_def)

lemma tally_append:
  "tally S a xs b \<Longrightarrow> tally S b ys c \<Longrightarrow> tally S a (xs @ ys) c"
  by (simp add: tally_def)

lemma examine_pip_tally:
  assumes e: "examine_pip A dst_wire st p = Inr st'"
    and fin: "finite (dom (visited (srouter st)))" and sub: "S \<subseteq> dom (visited (srouter st))"
  shows "tally S st [examine_outcome A st p] st'"
proof -
  note o = examine_pip_outcome [OF e]
  let ?D = "dom (visited (srouter st))" and ?D' = "dom (visited (srouter st'))"
  let ?w = "getPipDstWire A p"
  have f': "finite ?D'" and s': "S \<subseteq> ?D'" using o(4) fin sub by (auto split: if_splits)
  have c: "int (card (?D' - S)) = int (card (?D - S)) + (if examine_outcome A st p = Fresh then 1 else 0)"
  proof (cases "examine_outcome A st p = Fresh")
    case True
    with o(5) have n: "?w \<notin> ?D" and "examine_outcome A st p \<noteq> Skipped" by simp_all
    with o(4) have "?D' = insert ?w ?D" by simp
    moreover from n sub have "?w \<notin> S" by blast
    ultimately have "?D' - S = insert ?w (?D - S)" by auto
    moreover have "?w \<notin> ?D - S" using n by simp
    moreover have "finite (?D - S)" using fin by simp
    ultimately show ?thesis using True by simp
  next
    case False
    with o(4,5) have "?D' = ?D" by (auto split: if_splits)
    with False show ?thesis by simp
  qed
  show ?thesis
    unfolding tally_def using o(1,2,3) c f' s' by (cases "examine_outcome A st p") simp_all
qed

lemma examine_pips_tally:
  assumes "examine_pips A dst_wire ps st = Inr st'"
    and "finite (dom (visited (srouter st)))" and "S \<subseteq> dom (visited (srouter st))"
  shows "tally S st (pips_outcomes A dst_wire ps st) st'"
  using assms
proof (induction ps arbitrary: st)
  case Nil
  then show ?case by (simp add: tally_def)
next
  case (Cons p ps)
  from Cons.prems(1) obtain mid where m: "examine_pip A dst_wire st p = Inr mid"
    and r: "examine_pips A dst_wire ps mid = Inr st'"
    by (auto split: sum.splits)
  note a = examine_pip_tally [OF m Cons.prems(2,3)]
  then have "finite (dom (visited (srouter mid)))" "S \<subseteq> dom (visited (srouter mid))"
    by (simp_all add: tally_def)
  note b = Cons.IH [OF r this]
  from tally_append [OF a b] m show ?case by simp
qed

lemma route_loop_tally:
  assumes "route_loop n A dst_wire st = Some (Inr fin)"
    and "finite (dom (visited (srouter st)))" and "S \<subseteq> dom (visited (srouter st))"
  shows "tally S st (loop_outcomes n A dst_wire st) fin"
  using assms
proof (induction n arbitrary: st)
  case 0
  then show ?case by simp
next
  case (Suc n)
  show ?case
  proof (cases "search_continues st")
    case False
    with Suc.prems show ?thesis by (simp add: tally_def)
  next
    case True
    let ?p = "pop_entry dst_wire st"
    let ?ps = "getPipsDownhill A (wire (sqw ?p))"
    from True Suc.prems(1) obtain mid
      where m: "examine_pips A dst_wire ?ps ?p = Inr mid"
        and r: "route_loop n A dst_wire mid = Some (Inr fin)"
      by (auto simp: Let_def split: sum.splits)
    have "tally S ?p (pips_outcomes A dst_wire ?ps ?p) mid"
      using Suc.prems(2,3) by (intro examine_pips_tally [OF m]) (simp_all add: pop_entry_fields)
    then have a: "tally S st (pips_outcomes A dst_wire ?ps ?p) mid"
      by (simp add: tally_def pop_entry_fields)
    then have "finite (dom (visited (srouter mid)))" "S \<subseteq> dom (visited (srouter mid))"
      by (simp_all add: tally_def)
    note b = Suc.IH [OF r this]
    from tally_append [OF a b] True m show ?thesis by (simp add: Let_def)
  qed
qed

lemma outcome_total:
  "length evs = count_list evs Skipped + count_list evs Revisit + count_list evs Overtime + count_list evs Fresh"
proof (induction evs)
  case Nil
  then show ?case by simp
next
  case (Cons e evs)
  then show ?case by (cases e) simp_all
qed

lemma parallel_run:
  "route (Suc (Suc (Suc 0))) (table_arch parallel_tab 0 10 False) (fresh_ctx [])
     (Router_init RipupScoreboard_empty 1 False 0) [(1, 0)] 2 =
   Some (Inr (\<lparr>cnets = [], wire_net = [], pip_net = [], seed = 2\<rparr>,
     (Router_init RipupScoreboard_empty 1 False 0)
       \<lparr>visited := [1 \<mapsto> \<lparr>wire = 1, pip = PipId_none, delay = 0, togo = 0, randtag = 0\<rparr>,
                    2 \<mapsto> \<lparr>wire = 2, pip = 10, delay = 1, togo = 0, randtag = 0\<rparr>],
        visitCnt := 3\<rparr>))"
  by (simp add: search_defs table_defs parallel_tab_def)

lemma detour_outcomes:
  "route_outcomes 9 (table_arch detour_tab 0 10 False) (fresh_ctx [])
      (Router_init RipupScoreboard_empty 1 False 0) [(1, 0)] 4 = [Fresh, Fresh, Revisit, Fresh, Skipped]
   \<and> route_outcomes 9 (table_arch detour_tab 0 10 False) (fresh_ctx [])
      (Router_init RipupScoreboard_empty 1 False 0) [(1, 0)] 2 = [Fresh, Fresh, Overtime]"
  by code_simp

lemma detour_returns:
  "(\<exists>c' r'. route 9 (table_arch detour_tab 0 10 False) (fresh_ctx [])
      (Router_init RipupScoreboard_empty 1 False 0) [(1, 0)] 4 = Some (Inr (c', r')))
   \<and> (\<exists>c' r'. route 9 (table_arch detour_tab 0 10 False) (fresh_ctx [])
      (Router_init RipupScoreboard_empty 1 False 0) [(1, 0)] 2 = Some (Inr (c', r')))"
proof -
  have "case route 9 (table_arch detour_tab 0 10 False) (fresh_ctx [])
      (Router_init RipupScoreboard_empty 1 False 0) [(1, 0)] 4 of Some (Inr res) \<Rightarrow> True | _ \<Rightarrow> False"
    by code_simp
  moreover have "case route 9 (table_arch detour_tab 0 10 False) (fresh_ctx [])
      (Router_init RipupScoreboard_empty 1 False 0) [(1, 0)] 2 of Some (Inr res) \<Rightarrow> True | _ \<Rightarrow> False"
    by code_simp
  ultimately show ?thesis by (auto split: option.splits sum.splits)
qed

text \<open>
  Claim C8, as stated: for every completed path search, \<open>visitCnt\<close> equals
  \<open>revisitCnt\<close> plus \<open>overtimeRevisitCnt\<close> plus the number of newly settled wires.
  It fails on the device with two equal paths from wire 1 to wire 4: the search
  examines four pips, counts no revisit, and records the three wires 2, 3 and 4, the
  only wires of the device besides the source; the fourth edge leads to wire 4 again
  without improving it and is skipped, which no counter but \<open>visitCnt\<close> notes.
  Counting the source wire as settled does not save the identity: on the device with
  three pips from wire 1 to wire 2 the search examines three pips, counts no revisit
  and records two wires, the source among them.
\<close>

theorem visit_accounting_counterexample:
  "(\<exists>c' r'. route 5 (table_arch diamond_tab 0 10 False) (fresh_ctx [])
              (Router_init RipupScoreboard_empty 1 False 0) [(1, 0)] 4 = Some (Inr (c', r'))
     \<and> visitCnt r' = 4 \<and> revisitCnt r' = 0 \<and> overtimeRevisitCnt r' = 0
     \<and> dom (visited r') - {1} = {2, 3, 4}
     \<and> visitCnt r' \<noteq> revisitCnt r' + overtimeRevisitCnt r' + int (card (dom (visited r') - {1})))
   \<and> (\<exists>c' r'. route 3 (table_arch parallel_tab 0 10 False) (fresh_ctx [])
              (Router_init RipupScoreboard_empty 1 False 0) [(1, 0)] 2 = Some (Inr (c', r'))
     \<and> visitCnt r' = 3 \<and> revisitCnt r' = 0 \<and> overtimeRevisitCnt r' = 0
     \<and> dom (visited r') = {1, 2}
     \<and> visitCnt r' \<noteq> revisitCnt r' + overtimeRevisitCnt r' + int (card (dom (visited r') - {1}))
     \<and> visitCnt r' \<noteq> revisitCnt r' + overtimeRevisitCnt r' + int (card (dom (visited r'))))"
proof -
  have five: "(5::nat) = Suc (Suc (Suc (Suc (Suc 0))))" by simp
  have three: "(3::nat) = Suc (Suc (Suc 0))" by simp
  let ?r = "(Router_init RipupScoreboard_empty 1 False 0)
       \<lparr>visited := [1 \<mapsto> \<lparr>wire = 1, pip = PipId_none, delay = 0, togo = 0, randtag = 0\<rparr>,
                    2 \<mapsto> \<lparr>wire = 2, pip = 10, delay = 1, togo = 0, randtag = 0\<rparr>,
                    3 \<mapsto> \<lparr>wire = 3, pip = 11, delay = 1, togo = 0, randtag = 0\<rparr>,
                    4 \<mapsto> \<lparr>wire = 4, pip = 12, delay = 2, togo = 0, randtag = 0\<rparr>],
        visitCnt := 4\<rparr>"
  have d: "dom (visited ?r) - {1} = {2, 3, 4}" by auto
  have k: "card {2::int, 3, 4} = 3" by simp
  have c: "visitCnt ?r = 4" "revisitCnt ?r = 0" "overtimeRevisitCnt ?r = 0"
    by (simp_all add: Router_init_def)
  have n: "visitCnt ?r \<noteq> revisitCnt ?r + overtimeRevisitCnt ?r + int (card (dom (visited ?r) - {1}))"
    unfolding d k c by simp
  have one: "\<exists>c' r'. route 5 (table_arch diamond_tab 0 10 False) (fresh_ctx [])
              (Router_init RipupScoreboard_empty 1 False 0) [(1, 0)] 4 = Some (Inr (c', r'))
     \<and> visitCnt r' = 4 \<and> revisitCnt r' = 0 \<and> overtimeRevisitCnt r' = 0
     \<and> dom (visited r') - {1} = {2, 3, 4}
     \<and> visitCnt r' \<noteq> revisitCnt r' + overtimeRevisitCnt r' + int (card (dom (visited r') - {1}))"
    unfolding five diamond_run
    by (intro exI conjI, rule refl, (rule c d n)+)
  let ?q = "(Router_init RipupScoreboard_empty 1 False 0)
       \<lparr>visited := [1 \<mapsto> \<lparr>wire = 1, pip = PipId_none, delay = 0, togo = 0, randtag = 0\<rparr>,
                    2 \<mapsto> \<lparr>wire = 2, pip = 10, delay = 1, togo = 0, randtag = 0\<rparr>],
        visitCnt := 3\<rparr>"
  have d2: "dom (visited ?q) = {1, 2}" by auto
  have k2: "card ({1::int, 2} - {1}) = 1" "card {1::int, 2} = 2" by simp_all
  have c2: "visitCnt ?q = 3" "revisitCnt ?q = 0" "overtimeRevisitCnt ?q = 0"
    by (simp_all add: Router_init_def)
  have n2: "visitCnt ?q \<noteq> revisitCnt ?q + overtimeRevisitCnt ?q + int (card (dom (visited ?q) - {1}))"
    "visitCnt ?q \<noteq> revisitCnt ?q + overtimeRevisitCnt ?q + int (card (dom (visited ?q)))"
    unfolding d2 k2 c2 by simp_all
  have two: "\<exists>c' r'. route 3 (table_arch parallel_tab 0 10 False) (fresh_ctx [])
              (Router_init RipupScoreboard_empty 1 False 0) [(1, 0)] 2 = Some (Inr (c', r'))
     \<and> visitCnt r' = 3 \<and> revisitCnt r' = 0 \<and> overtimeRevisitCnt r' = 0
     \<and> dom (visited r') = {1, 2}
     \<and> visitCnt r' \<noteq> revisitCnt r' + overtimeRevisitCnt r' + int (card (dom (visited r') - {1}))
     \<and> visitCnt r' \<noteq> revisitCnt r' + overtimeRevisitCnt r' + int (card (dom (visited r')))"
    unfolding three parallel_run
    by (intro exI conjI, rule refl, (rule c2 d2 n2)+)
  from one two show ?thesis by (rule conjI)
qed

text \<open>
  Claim C8, amended. Every examined pip is skipped, counted as a revisit, counted as
  an overtime revisit, or reaches a wire that is not yet recorded. For every
  completed path search the growth of \<open>visitCnt\<close> is the number of examined pips, the
  growth of \<open>revisitCnt\<close> and of \<open>overtimeRevisitCnt\<close> is the number of revisits of
  each kind, and the number of wires recorded beyond the source wires is the number of
  examinations that reached a new wire. So the growth of \<open>visitCnt\<close> is the growth of
  \<open>revisitCnt\<close> plus the growth of \<open>overtimeRevisitCnt\<close> plus the number of newly
  recorded wires plus the number of skipped edges, and the identity of the claim
  holds exactly for the searches that skip no edge. \<open>overtimeRevisitCnt\<close> grows only
  if the destination wire was reached.
\<close>

theorem visit_accounting:
  assumes "route fuel A c r src_wires dst_wire = Some (Inr (c', r'))"
  shows "visitCnt r' - visitCnt r = int (length (route_outcomes fuel A c r src_wires dst_wire))
     \<and> revisitCnt r' - revisitCnt r = int (count_list (route_outcomes fuel A c r src_wires dst_wire) Revisit)
     \<and> overtimeRevisitCnt r' - overtimeRevisitCnt r =
         int (count_list (route_outcomes fuel A c r src_wires dst_wire) Overtime)
     \<and> int (card (dom (visited r') - fst ` set src_wires)) =
         int (count_list (route_outcomes fuel A c r src_wires dst_wire) Fresh)
     \<and> visitCnt r' - visitCnt r =
         (revisitCnt r' - revisitCnt r) + (overtimeRevisitCnt r' - overtimeRevisitCnt r)
         + int (card (dom (visited r') - fst ` set src_wires))
         + int (count_list (route_outcomes fuel A c r src_wires dst_wire) Skipped)
     \<and> (revisitCnt r' - revisitCnt r) + (overtimeRevisitCnt r' - overtimeRevisitCnt r)
           + int (card (dom (visited r') - fst ` set src_wires)) \<le> visitCnt r' - visitCnt r
     \<and> (overtimeRevisitCnt r < overtimeRevisitCnt r' \<longrightarrow> visited r' dst_wire \<noteq> None)"
proof -
  let ?st0 = "search_start A c r src_wires dst_wire"
  let ?S = "fst ` set src_wires"
  let ?evs = "route_outcomes fuel A c r src_wires dst_wire"
  from assms obtain fin
    where l: "route_loop fuel A dst_wire ?st0 = Some (Inr fin)"
      and r: "r' = (srouter fin)\<lparr>visitCnt := visitCnt r + thisVisitCnt fin\<rparr>"
    by (rule route_result)
  have d: "dom (visited (srouter ?st0)) = ?S" by (rule search_start_fields)
  have "tally ?S ?st0 (loop_outcomes fuel A dst_wire ?st0) fin"
    by (rule route_loop_tally [OF l]) (simp_all add: d)
  then have t: "thisVisitCnt fin = int (length ?evs)"
    "revisitCnt (srouter fin) = revisitCnt r + int (count_list ?evs Revisit)"
    "overtimeRevisitCnt (srouter fin) = overtimeRevisitCnt r + int (count_list ?evs Overtime)"
    "int (card (dom (visited (srouter fin)) - ?S)) = int (count_list ?evs Fresh)"
    by (simp_all add: tally_def route_outcomes_def search_start_fields)
  from route_loop_inv [OF l search_start_inv]
  have i: "search_inv ?S dst_wire r fin" by simp
  have o: "overtimeRevisitCnt r < overtimeRevisitCnt r' \<longrightarrow> visited r' dst_wire \<noteq> None"
    using i by (simp add: r search_inv_def)
  have tot: "int (length ?evs) = int (count_list ?evs Skipped) + int (count_list ?evs Revisit)
       + int (count_list ?evs Overtime) + int (count_list ?evs Fresh)"
    using outcome_total [of ?evs] by simp
  show ?thesis
  proof (intro conjI)
    show "visitCnt r' - visitCnt r = int (length ?evs)" using t(1) by (simp add: r)
    show "revisitCnt r' - revisitCnt r = int (count_list ?evs Revisit)" using t(2) by (simp add: r)
    show "overtimeRevisitCnt r' - overtimeRevisitCnt r = int (count_list ?evs Overtime)"
      using t(3) by (simp add: r)
    show "int (card (dom (visited r') - ?S)) = int (count_list ?evs Fresh)" using t(4) by (simp add: r)
    show "visitCnt r' - visitCnt r =
         (revisitCnt r' - revisitCnt r) + (overtimeRevisitCnt r' - overtimeRevisitCnt r)
         + int (card (dom (visited r') - ?S)) + int (count_list ?evs Skipped)"
      using t tot by (simp add: r)
    show "(revisitCnt r' - revisitCnt r) + (overtimeRevisitCnt r' - overtimeRevisitCnt r)
           + int (card (dom (visited r') - ?S)) \<le> visitCnt r' - visitCnt r"
      using t tot by (simp add: r)
    show "overtimeRevisitCnt r < overtimeRevisitCnt r' \<longrightarrow> visited r' dst_wire \<noteq> None" by (rule o)
  qed
qed


text \<open>
  On the device with the detour the search for wire 4 examines five pips: three reach
  a new wire, one improves wire 2 (a revisit) and one is skipped. The search for wire
  2 examines three pips: two reach a new wire and the third improves wire 2 after the
  limit was set (an overtime revisit); no edge is skipped, and the identity of the
  claim holds.
\<close>

theorem visit_accounting_witness:
  "(\<exists>c' r'. route 9 (table_arch detour_tab 0 10 False) (fresh_ctx [])
              (Router_init RipupScoreboard_empty 1 False 0) [(1, 0)] 4 = Some (Inr (c', r'))
     \<and> visitCnt r' = 5 \<and> revisitCnt r' = 1 \<and> overtimeRevisitCnt r' = 0
     \<and> int (card (dom (visited r') - {1})) = 3
     \<and> visitCnt r' = revisitCnt r' + overtimeRevisitCnt r' + int (card (dom (visited r') - {1})) + 1)
   \<and> (\<exists>c' r'. route 9 (table_arch detour_tab 0 10 False) (fresh_ctx [])
              (Router_init RipupScoreboard_empty 1 False 0) [(1, 0)] 2 = Some (Inr (c', r'))
     \<and> visitCnt r' = 3 \<and> revisitCnt r' = 0 \<and> overtimeRevisitCnt r' = 1
     \<and> int (card (dom (visited r') - {1})) = 2 \<and> visited r' 2 \<noteq> None
     \<and> visitCnt r' = revisitCnt r' + overtimeRevisitCnt r' + int (card (dom (visited r') - {1})))"
proof -
  let ?A = "table_arch detour_tab 0 10 False"
  let ?r = "Router_init RipupScoreboard_empty 1 False 0"
  have z: "revisitCnt ?r = 0" "overtimeRevisitCnt ?r = 0" "visitCnt ?r = 0"
    by (simp_all add: Router_init_def)
  have s: "fst ` set [(1::int, 0::int)] = {1}" by simp
  from detour_returns obtain c1 r1 c2 r2 where
    e1: "route 9 ?A (fresh_ctx []) ?r [(1, 0)] 4 = Some (Inr (c1, r1))"
    and e2: "route 9 ?A (fresh_ctx []) ?r [(1, 0)] 2 = Some (Inr (c2, r2))" by blast
  note o = detour_outcomes
  from visit_accounting [OF e1] have a1: "visitCnt r1 = 5 \<and> revisitCnt r1 = 1 \<and> overtimeRevisitCnt r1 = 0
     \<and> int (card (dom (visited r1) - {1})) = 3"
    unfolding z s conjunct1 [OF o] by simp
  from visit_accounting [OF e2] have a2: "visitCnt r2 = 3 \<and> revisitCnt r2 = 0 \<and> overtimeRevisitCnt r2 = 1
     \<and> int (card (dom (visited r2) - {1})) = 2 \<and> visited r2 2 \<noteq> None"
    unfolding z s conjunct2 [OF o] by simp
  have one: "\<exists>c' r'. route 9 ?A (fresh_ctx []) ?r [(1, 0)] 4 = Some (Inr (c', r'))
     \<and> visitCnt r' = 5 \<and> revisitCnt r' = 1 \<and> overtimeRevisitCnt r' = 0
     \<and> int (card (dom (visited r') - {1})) = 3
     \<and> visitCnt r' = revisitCnt r' + overtimeRevisitCnt r' + int (card (dom (visited r') - {1})) + 1"
    using e1 a1 by (intro exI [of _ c1] exI [of _ r1]) simp
  have two: "\<exists>c' r'. route 9 ?A (fresh_ctx []) ?r [(1, 0)] 2 = Some (Inr (c', r'))
     \<and> visitCnt r' = 3 \<and> revisitCnt r' = 0 \<and> overtimeRevisitCnt r' = 1
     \<and> int (card (dom (visited r') - {1})) = 2 \<and> visited r' 2 \<noteq> None
     \<and> visitCnt r' = revisitCnt r' + overtimeRevisitCnt r' + int (card (dom (visited r') - {1}))"
    using e2 a2 by (intro exI [of _ c2] exI [of _ r2]) simp
  from one two show ?thesis by (rule conjI)
qed

section \<open>Claim C9: a routed netlist\<close>

lemma unrouted_fold_skip:
  assumes "\<forall>it \<in> set ns. wires (snd it) \<noteq> [] \<or> cell (driver (snd it)) = None"
  shows "fold (\<lambda>net_it q.
             if cell (driver (snd net_it)) = None then q
             else if \<not> wires (snd net_it) = [] then q
             else List.insert (fst net_it) q) ns acc = acc"
  using assms by (induction ns arbitrary: acc) auto

text \<open>
  Claim C9: if every net has a nonempty wire map or no driver cell, \<open>router1\<close>
  returns true whatever the fuel, no iteration is run, and the context and the
  (empty) scoreboard are as they were.
\<close>

theorem router1_routed_noop:
  assumes "\<forall>it \<in> set (nets A c). wires (snd it) \<noteq> [] \<or> cell (driver (snd it)) = None"
  shows "router1 k fuel A c = Some (Inr True) \<and>
         router1_try k fuel A c =
           Some (Inr (True, \<lparr>lctx = c, lscores = RipupScoreboard_empty, netsQueue = [],
                            iterCnt = 0, penalty = getRipupDelayPenalty A\<rparr>))"
proof -
  have "unrouted_nets A c = []"
    unfolding unrouted_nets_def using assms by (rule unrouted_fold_skip)
  then show ?thesis
    by (simp add: router1_def router1_try_def)
qed

theorem router1_routed_noop_witness:
  "router1 0 0 (table_arch direct_tab 0 10 False) routed_ctx = Some (Inr True) \<and>
   router1_try 0 0 (table_arch direct_tab 0 10 False) routed_ctx =
     Some (Inr (True, \<lparr>lctx = routed_ctx, lscores = RipupScoreboard_empty, netsQueue = [],
                      iterCnt = 0, penalty = 10\<rparr>))"
  using router1_routed_noop [of "table_arch direct_tab 0 10 False" routed_ctx 0 0]
  by (simp add: table_arch_def routed_ctx_def simple_net_def placed_def)

section \<open>Claim C10: the delay output of the probe\<close>

text \<open>
  Claim C10: when \<open>getActualRouteDelay\<close> returns false the caller's delay is left as it
  was; when it returns true the delay is that of the destination's entry in the
  visited map of the router.
\<close>

theorem getActualRouteDelay_frame:
  assumes "getActualRouteDelay fuel A c src_wire dst_wire delay_io = Some (Inr (ok, delay_out, c'))"
  shows "(\<not> ok \<longrightarrow> delay_out = delay_io) \<and>
         (ok \<longrightarrow> (\<exists>c1 router q. Router_wire fuel A c RipupScoreboard_empty src_wire dst_wire = Some (Inr (c1, router))
                    \<and> visited router dst_wire = Some q \<and> delay_out = delay q))"
  using assms
  by (auto simp: getActualRouteDelay_def split: option.splits sum.splits if_splits)

text \<open>
  On the device with two paths: from wire 4 nothing leads to wire 1, and the delay 77
  comes back; from wire 1 to wire 4 the delay is 2.
\<close>

theorem getActualRouteDelay_frame_witness:
  "(\<exists>c'. getActualRouteDelay 9 (table_arch diamond_tab 0 10 False) (fresh_ctx []) 4 1 77 = Some (Inr (False, 77, c')))
   \<and> (\<exists>c' c1 router q. getActualRouteDelay 9 (table_arch diamond_tab 0 10 False) (fresh_ctx []) 1 4 77 = Some (Inr (True, 2, c'))
        \<and> Router_wire 9 (table_arch diamond_tab 0 10 False) (fresh_ctx []) RipupScoreboard_empty 1 4 = Some (Inr (c1, router))
        \<and> visited router 4 = Some q \<and> delay q = 2)"
proof -
  let ?A = "table_arch diamond_tab 0 10 False"
  have "case getActualRouteDelay 9 ?A (fresh_ctx []) 4 1 77 of
          Some (Inr (ok, d, c')) \<Rightarrow> \<not> ok | _ \<Rightarrow> False"
    by code_simp
  then obtain d c' where e1: "getActualRouteDelay 9 ?A (fresh_ctx []) 4 1 77 = Some (Inr (False, d, c'))"
    by (auto split: option.splits sum.splits)
  have "case getActualRouteDelay 9 ?A (fresh_ctx []) 1 4 77 of
          Some (Inr (ok, d, c')) \<Rightarrow> ok \<and> d = 2 | _ \<Rightarrow> False"
    by code_simp
  then obtain c'' where e2: "getActualRouteDelay 9 ?A (fresh_ctx []) 1 4 77 = Some (Inr (True, 2, c''))"
    by (auto split: option.splits sum.splits)
  from getActualRouteDelay_frame [OF e1] getActualRouteDelay_frame [OF e2] e1 e2
  show ?thesis by auto
qed

end
